theory Spec2Isabelle
  imports Main
begin

section \<open>The type-erased callable wrapper of function.h\<close>

text \<open>
  The header defines \<^verbatim>\<open>function<R(Args...)>\<close>: one storage cell of the size of a pointer
  and a pointer to a static table of five operations (\<^verbatim>\<open>type_descriptor\<close>). The model
  below follows the header line by line. The argument pack \<^verbatim>\<open>Args...\<close> is the type
  \<open>'a\<close>, the result type \<^verbatim>\<open>R\<close> is \<open>'r\<close>, and a callable object is represented by what
  its call operator computes, a function \<open>'a \<Rightarrow> 'r\<close>.
\<close>

subsection \<open>Callable types and memory\<close>

text \<open>
  A callable type \<^verbatim>\<open>T\<close>, as far as the header looks at it: its name (two types are the
  same type iff the records are equal), \<^verbatim>\<open>sizeof(T)\<close>, \<^verbatim>\<open>alignof(T)\<close> and the two traits
  \<^verbatim>\<open>fits_small\<close> reads. The last two fields say what the special members of \<^verbatim>\<open>T\<close> do
  when the header runs them on storage that holds no \<^verbatim>\<open>T\<close>: a trivial move assignment
  is a copy of bytes whatever the destination holds, and a trivial destructor does
  nothing whatever its \<^verbatim>\<open>this\<close> pointer is; the non-trivial ones need an object of type
  \<^verbatim>\<open>T\<close> there.
\<close>

record ctype =
  tname :: string
  sizeof :: nat
  alignof :: nat
  is_nothrow_move_assignable :: bool
  is_nothrow_move_constructible :: bool
  is_trivially_move_assignable :: bool
  is_trivially_destructible :: bool

text \<open>
  What a piece of storage holds: nothing meaningful, a live object of a type, an object
  that has been moved from by a non-trivial move assignment (alive, value unspecified), or
  the address of a heap block.
\<close>

datatype ('a, 'r) slot =
    Indeterminate
  | Object ctype "'a \<Rightarrow> 'r"
  | MovedFrom ctype
  | Pointer nat

text \<open>
  The wrappers of a program are named \<open>var n\<close>; \<open>temporary\<close> is the unnamed wrapper
  that the two assignment operators build (\<^verbatim>\<open>function(rhs)\<close> and \<^verbatim>\<open>function()\<close>).
  A storage cell is the member \<^verbatim>\<open>storage\<close> of a wrapper or the local \<^verbatim>\<open>tmp\<close> of
  \<^verbatim>\<open>swap\<close>.
\<close>

datatype oref = var nat | temporary

datatype cref = storage_of oref | tmp

datatype pointer = nullptr | in_cell cref | on_heap nat | wild

text \<open>
  The address of a static table: \<open>empty_table\<close> is \<^verbatim>\<open>&result\<close> of
  \<^verbatim>\<open>get_empty_func_descriptor\<close>, \<open>table_of T\<close> is \<^verbatim>\<open>&result\<close> of
  \<^verbatim>\<open>get_descriptor<T>\<close>. Each instantiation has its own static object, so the addresses
  are equal iff the tables are the same table.
\<close>

datatype desc_ptr = empty_table | table_of ctype

record ('a, 'r) function_t =
  storage :: "('a, 'r) slot"
  desc :: desc_ptr

text \<open>
  The state of a program: its wrappers, the scratch cell of \<^verbatim>\<open>swap\<close>, the heap blocks
  that are allocated, and the number of \<^verbatim>\<open>new\<close> and \<^verbatim>\<open>delete\<close> expressions evaluated so
  far. A block's address is the number of blocks allocated before it, so no address is
  used twice. \<^verbatim>\<open>new\<close> is taken to succeed (no \<^verbatim>\<open>std::bad_alloc\<close>).
\<close>

record ('a, 'r) state =
  objs :: "oref \<Rightarrow> ('a, 'r) function_t"
  tmp_cell :: "('a, 'r) slot"
  heap :: "nat \<rightharpoonup> ('a, 'r) slot"
  allocs :: nat
  frees :: nat

text \<open>
  \<open>bad_function_call\<close> is the exception of the header; \<open>undefined_behaviour\<close> stands for
  an execution the language gives no meaning to (a member function run on storage without
  an object of its type, a read through a pointer that is none, a second \<^verbatim>\<open>delete\<close>).
\<close>

datatype error = bad_function_call | undefined_behaviour

fun and_then :: "error + 's \<Rightarrow> ('s \<Rightarrow> error + 't) \<Rightarrow> error + 't" where
  "and_then (Inl e) f = Inl e"
| "and_then (Inr s) f = f s"

definition cell :: "('a, 'r) state \<Rightarrow> cref \<Rightarrow> ('a, 'r) slot" where
  "cell st c = (case c of storage_of w \<Rightarrow> storage (objs st w) | tmp \<Rightarrow> tmp_cell st)"

definition set_cell :: "cref \<Rightarrow> ('a, 'r) slot \<Rightarrow> ('a, 'r) state \<Rightarrow> ('a, 'r) state" where
  "set_cell c s st =
     (case c of
        storage_of w \<Rightarrow> st\<lparr>objs := (objs st)(w := (objs st w)\<lparr>storage := s\<rparr>)\<rparr>
      | tmp \<Rightarrow> st\<lparr>tmp_cell := s\<rparr>)"

definition set_desc :: "oref \<Rightarrow> desc_ptr \<Rightarrow> ('a, 'r) state \<Rightarrow> ('a, 'r) state" where
  "set_desc w d st = st\<lparr>objs := (objs st)(w := (objs st w)\<lparr>desc := d\<rparr>)\<rparr>"

text \<open>The storage a pointer points to, if it points to any.\<close>

definition slot_at :: "('a, 'r) state \<Rightarrow> pointer \<Rightarrow> ('a, 'r) slot option" where
  "slot_at st p =
     (case p of in_cell c \<Rightarrow> Some (cell st c) | on_heap a \<Rightarrow> heap st a | _ \<Rightarrow> None)"

definition set_slot_at :: "pointer \<Rightarrow> ('a, 'r) slot \<Rightarrow> ('a, 'r) state \<Rightarrow> ('a, 'r) state" where
  "set_slot_at p s st =
     (case p of
        in_cell c \<Rightarrow> set_cell c s st
      | on_heap a \<Rightarrow> st\<lparr>heap := (heap st)(a \<mapsto> s)\<rparr>
      | _ \<Rightarrow> st)"

fun holds_object :: "ctype \<Rightarrow> ('a, 'r) slot \<Rightarrow> bool" where
  "holds_object T (Object T' v) = (T' = T)"
| "holds_object T (MovedFrom T') = (T' = T)"
| "holds_object T _ = False"

subsection \<open>The operations of a callable type on storage\<close>

text \<open>Reading the object of type \<^verbatim>\<open>T\<close> behind a pointer (\<^verbatim>\<open>*p\<close> as an rvalue).\<close>

definition load :: "ctype \<Rightarrow> pointer \<Rightarrow> ('a, 'r) state \<Rightarrow> error + ('a \<Rightarrow> 'r)" where
  "load T p st =
     (case slot_at st p of
        Some (Object T' v) \<Rightarrow> if T' = T then Inr v else Inl undefined_behaviour
      | _ \<Rightarrow> Inl undefined_behaviour)"

text \<open>\<^verbatim>\<open>new (c) T(v)\<close>: placement construction; what the cell held is overwritten.\<close>

definition construct_at :: "ctype \<Rightarrow> cref \<Rightarrow> ('a \<Rightarrow> 'r) \<Rightarrow> ('a, 'r) state \<Rightarrow> ('a, 'r) state" where
  "construct_at T c v st = set_cell c (Object T v) st"

text \<open>\<^verbatim>\<open>new T(v)\<close>: a fresh block holding the object; returns its address.\<close>

definition new :: "ctype \<Rightarrow> ('a \<Rightarrow> 'r) \<Rightarrow> ('a, 'r) state \<Rightarrow> nat \<times> ('a, 'r) state" where
  "new T v st =
     (allocs st, st\<lparr>heap := (heap st)(allocs st \<mapsto> Object T v), allocs := allocs st + 1\<rparr>)"

text \<open>
  \<^verbatim>\<open>reinterpret_cast<T&>(*dst) = std::move(reinterpret_cast<T&>(*src))\<close>: the move
  assignment operator of \<^verbatim>\<open>T\<close>, run on the destination cell.
\<close>

definition move_assign :: "ctype \<Rightarrow> cref \<Rightarrow> cref \<Rightarrow> ('a, 'r) state \<Rightarrow> error + ('a, 'r) state" where
  "move_assign T dst src st =
     (case load T (in_cell src) st of
        Inl e \<Rightarrow> Inl e
      | Inr v \<Rightarrow>
          if is_trivially_move_assignable T then Inr (set_cell dst (Object T v) st)
          else if holds_object T (cell st dst)
          then Inr (set_cell dst (Object T v) (set_cell src (MovedFrom T) st))
          else Inl undefined_behaviour)"

text \<open>\<^verbatim>\<open>p->~T()\<close>: the destructor of \<^verbatim>\<open>T\<close>, run on whatever \<^verbatim>\<open>p\<close> points to.\<close>

definition destructor :: "ctype \<Rightarrow> pointer \<Rightarrow> ('a, 'r) state \<Rightarrow> error + ('a, 'r) state" where
  "destructor T p st =
     (case slot_at st p of
        Some s \<Rightarrow>
          if holds_object T s then Inr (set_slot_at p Indeterminate st)
          else if is_trivially_destructible T then Inr st
          else Inl undefined_behaviour
      | None \<Rightarrow> if is_trivially_destructible T then Inr st else Inl undefined_behaviour)"

text \<open>\<^verbatim>\<open>delete p\<close> for a \<^verbatim>\<open>T*\<close>: destroys the object and releases its block.\<close>

definition delete :: "ctype \<Rightarrow> pointer \<Rightarrow> ('a, 'r) state \<Rightarrow> error + ('a, 'r) state" where
  "delete T p st =
     (case p of
        nullptr \<Rightarrow> Inr st
      | on_heap a \<Rightarrow>
          (case heap st a of
             Some s \<Rightarrow>
               if holds_object T s
               then Inr (st\<lparr>heap := (heap st)(a := None), frees := frees st + 1\<rparr>)
               else Inl undefined_behaviour
           | None \<Rightarrow> Inl undefined_behaviour)
      | _ \<Rightarrow> Inl undefined_behaviour)"

subsection \<open>The header's free functions\<close>

text \<open>
  \<^verbatim>\<open>storage_t\<close> is \<^verbatim>\<open>aligned_storage_t<sizeof(void*), alignof(void*)>\<close>; the header's comment
  on the member says \<^verbatim>\<open>8 bytes, char[8]\<close>.
\<close>

definition sizeof_ptr :: nat where
  "sizeof_ptr = 8"

definition alignof_ptr :: nat where
  "alignof_ptr = 8"

text \<open>
  \<^verbatim>\<open>ptr_from_storage<T>(storage)\<close> reads the cell as a \<^verbatim>\<open>void*\<close>. A cell in which a pointer
  was stored gives that pointer back; any other content gives a pointer to nothing.
\<close>

definition ptr_from_storage :: "('a, 'r) state \<Rightarrow> cref \<Rightarrow> pointer" where
  "ptr_from_storage st c = (case cell st c of Pointer a \<Rightarrow> on_heap a | _ \<Rightarrow> wild)"

definition fits_small :: "ctype \<Rightarrow> bool" where
  "fits_small T \<longleftrightarrow>
     sizeof T < sizeof_ptr \<and> alignof T < alignof_ptr \<and>
     is_nothrow_move_assignable T \<and> is_nothrow_move_constructible T"

subsection \<open>The dispatch tables\<close>

record ('a, 'r) type_descriptor =
  copy :: "cref \<Rightarrow> cref \<Rightarrow> ('a, 'r) state \<Rightarrow> error + ('a, 'r) state"
  move :: "cref \<Rightarrow> cref \<Rightarrow> ('a, 'r) state \<Rightarrow> error + ('a, 'r) state"
  destroy :: "cref \<Rightarrow> ('a, 'r) state \<Rightarrow> error + ('a, 'r) state"
  get :: "cref \<Rightarrow> ('a, 'r) state \<Rightarrow> pointer"
  invoke :: "cref \<Rightarrow> 'a \<Rightarrow> ('a, 'r) state \<Rightarrow> error + 'r"

definition get_empty_func_descriptor :: "('a, 'r) type_descriptor" where
  "get_empty_func_descriptor =
     \<lparr> copy = (\<lambda>src dst st. Inr st),
       move = (\<lambda>src dst st. Inr st),
       destroy = (\<lambda>src st. Inr st),
       get = (\<lambda>src st. nullptr),
       invoke = (\<lambda>src args st. Inl bad_function_call) \<rparr>"

definition get_descriptor :: "ctype \<Rightarrow> ('a, 'r) type_descriptor" where
  "get_descriptor T =
     \<lparr> copy = (\<lambda>src dst st.
         if fits_small T
         then and_then (load T (in_cell src) st) (\<lambda>v. Inr (construct_at T dst v st))
         else and_then (load T (ptr_from_storage st src) st)
                (\<lambda>v. case new T v st of (a, st') \<Rightarrow> Inr (set_cell dst (Pointer a) st'))),
       move = (\<lambda>src dst st.
         if fits_small T
         then and_then (move_assign T dst src st)
                (\<lambda>st'. destructor T (ptr_from_storage st' src) st')
         else Inr (set_cell dst (cell st src) st)),
       destroy = (\<lambda>src st.
         if fits_small T then destructor T (in_cell src) st
         else delete T (ptr_from_storage st src) st),
       get = (\<lambda>src st.
         if fits_small T then in_cell src else ptr_from_storage st src),
       invoke = (\<lambda>src args st.
         if fits_small T
         then and_then (load T (in_cell src) st) (\<lambda>v. Inr (v args))
         else and_then (load T (ptr_from_storage st src) st) (\<lambda>v. Inr (v args))) \<rparr>"

text \<open>\<^verbatim>\<open>desc->\<close>: the table behind a table address.\<close>

fun deref :: "desc_ptr \<Rightarrow> ('a, 'r) type_descriptor" where
  "deref empty_table = get_empty_func_descriptor"
| "deref (table_of T) = get_descriptor T"

subsection \<open>The wrapper\<close>

text \<open>
  A constructor runs on fresh storage: the member \<^verbatim>\<open>storage\<close> has no initialiser in any of
  the four constructors, so it starts indeterminate.
\<close>

definition fresh :: "oref \<Rightarrow> desc_ptr \<Rightarrow> ('a, 'r) state \<Rightarrow> ('a, 'r) state" where
  "fresh this d st = st\<lparr>objs := (objs st)(this := \<lparr>storage = Indeterminate, desc = d\<rparr>)\<rparr>"

text \<open>\<^verbatim>\<open>function() noexcept\<close>\<close>

definition function_default :: "oref \<Rightarrow> ('a, 'r) state \<Rightarrow> ('a, 'r) state" where
  "function_default this st = fresh this empty_table st"

text \<open>\<^verbatim>\<open>function(function const& other)\<close>\<close>

definition function_copy :: "oref \<Rightarrow> oref \<Rightarrow> ('a, 'r) state \<Rightarrow> error + ('a, 'r) state" where
  "function_copy this other st =
     (let st1 = fresh this (desc (objs st other)) st
      in copy (deref (desc (objs st1 other))) (storage_of other) (storage_of this) st1)"

text \<open>\<^verbatim>\<open>function(function&& other) noexcept\<close>\<close>

definition function_move :: "oref \<Rightarrow> oref \<Rightarrow> ('a, 'r) state \<Rightarrow> error + ('a, 'r) state" where
  "function_move this other st =
     (let st1 = fresh this (desc (objs st other)) st
      in and_then (move (deref (desc (objs st1 this))) (storage_of other) (storage_of this) st1)
           (\<lambda>st2. Inr (set_desc other empty_table st2)))"

text \<open>\<^verbatim>\<open>template <typename T> function(T val)\<close>\<close>

definition function_from :: "oref \<Rightarrow> ctype \<Rightarrow> ('a \<Rightarrow> 'r) \<Rightarrow> ('a, 'r) state \<Rightarrow> ('a, 'r) state" where
  "function_from this T val st =
     (let st1 = fresh this (table_of T) st
      in if fits_small T then construct_at T (storage_of this) val st1
         else (case new T val st1 of (a, st2) \<Rightarrow> set_cell (storage_of this) (Pointer a) st2))"

text \<open>\<^verbatim>\<open>~function()\<close>\<close>

definition function_dtor :: "oref \<Rightarrow> ('a, 'r) state \<Rightarrow> error + ('a, 'r) state" where
  "function_dtor this st = destroy (deref (desc (objs st this))) (storage_of this) st"

text \<open>\<^verbatim>\<open>explicit operator bool() const noexcept\<close>\<close>

definition operator_bool :: "oref \<Rightarrow> ('a, 'r) state \<Rightarrow> bool" where
  "operator_bool this st \<longleftrightarrow> desc (objs st this) \<noteq> empty_table"

text \<open>\<^verbatim>\<open>R operator()(Args... args) const\<close>\<close>

definition operator_call :: "oref \<Rightarrow> 'a \<Rightarrow> ('a, 'r) state \<Rightarrow> error + 'r" where
  "operator_call this args st = invoke (deref (desc (objs st this))) (storage_of this) args st"

text \<open>\<^verbatim>\<open>template <typename T> T* target() noexcept\<close> and its const twin, which has the same body.\<close>

definition target :: "ctype \<Rightarrow> oref \<Rightarrow> ('a, 'r) state \<Rightarrow> pointer" where
  "target T this st =
     (if desc (objs st this) \<noteq> table_of T then nullptr
      else get (deref (desc (objs st this))) (storage_of this) st)"

text \<open>
  \<^verbatim>\<open>void swap(function& other)\<close>. The local \<^verbatim>\<open>storage_t tmp\<close> is declared without an
  initialiser; \<^verbatim>\<open>other.desc\<close> is read again for the third move.
\<close>

definition swap :: "oref \<Rightarrow> oref \<Rightarrow> ('a, 'r) state \<Rightarrow> error + ('a, 'r) state" where
  "swap this other st =
     (let st0 = st\<lparr>tmp_cell := Indeterminate\<rparr> in
      and_then (move (deref (desc (objs st0 other))) (storage_of other) tmp st0) (\<lambda>st1.
      and_then (move (deref (desc (objs st1 this))) (storage_of this) (storage_of other) st1) (\<lambda>st2.
      and_then (move (deref (desc (objs st2 other))) tmp (storage_of this) st2) (\<lambda>st3.
      Inr (set_desc other (desc (objs st3 this)) (set_desc this (desc (objs st3 other)) st3))))))"

text \<open>\<^verbatim>\<open>function& operator=(function const& rhs)\<close>\<close>

definition assign_copy :: "oref \<Rightarrow> oref \<Rightarrow> ('a, 'r) state \<Rightarrow> error + ('a, 'r) state" where
  "assign_copy this rhs st =
     (if this \<noteq> rhs
      then and_then (function_copy temporary rhs st) (\<lambda>st1.
           and_then (swap temporary this st1) (\<lambda>st2.
           function_dtor temporary st2))
      else Inr st)"

text \<open>\<^verbatim>\<open>function& operator=(function&& rhs) noexcept\<close>\<close>

definition assign_move :: "oref \<Rightarrow> oref \<Rightarrow> ('a, 'r) state \<Rightarrow> error + ('a, 'r) state" where
  "assign_move this rhs st =
     (if this \<noteq> rhs
      then and_then (swap this rhs st) (\<lambda>st1.
           and_then (swap temporary rhs (function_default temporary st1)) (\<lambda>st2.
           function_dtor temporary st2))
      else Inr st)"

subsection \<open>Client code\<close>

text \<open>
  Wrapper \<open>w\<close> is bound to an object of type \<^verbatim>\<open>T\<close> whose call operator computes \<open>v\<close>:
  its table is the table of \<^verbatim>\<open>T\<close> and the table's \<^verbatim>\<open>get\<close> points to that object.
\<close>

definition bound_to :: "('a, 'r) state \<Rightarrow> oref \<Rightarrow> ctype \<Rightarrow> ('a \<Rightarrow> 'r) \<Rightarrow> bool" where
  "bound_to st w T v \<longleftrightarrow>
     desc (objs st w) = table_of T \<and>
     load T (get (get_descriptor T) (storage_of w) st) st = Inr v"

text \<open>
  A client that changes the held object through the pointer \<^verbatim>\<open>target<T>()\<close> gave it, so
  that the object's call operator computes \<open>v'\<close> from then on.
\<close>

definition mutate :: "ctype \<Rightarrow> oref \<Rightarrow> ('a \<Rightarrow> 'r) \<Rightarrow> ('a, 'r) state \<Rightarrow> ('a, 'r) state" where
  "mutate T w v' st = set_slot_at (target T w st) (Object T v') st"

text \<open>
  A type whose objects the inline branch of \<^verbatim>\<open>move\<close> can relocate: a type in boxed mode
  (only the pointer moves), or a type in inline mode whose move assignment and destructor
  are trivial. A wrapper is in a usable state when it is empty or bound to an object of
  such a type.
\<close>

definition relocatable :: "ctype \<Rightarrow> bool" where
  "relocatable T \<longleftrightarrow>
     (fits_small T \<longrightarrow> is_trivially_move_assignable T \<and> is_trivially_destructible T)"

definition usable :: "('a, 'r) state \<Rightarrow> oref \<Rightarrow> bool" where
  "usable st w \<longleftrightarrow>
     (case desc (objs st w) of
        empty_table \<Rightarrow> True
      | table_of T \<Rightarrow> relocatable T \<and> (\<exists>v. bound_to st w T v))"

text \<open>The heap block a wrapper in boxed mode points to.\<close>

definition block_of :: "('a, 'r) state \<Rightarrow> oref \<Rightarrow> nat option" where
  "block_of st w =
     (case desc (objs st w) of
        empty_table \<Rightarrow> None
      | table_of T \<Rightarrow>
          if fits_small T then None
          else (case cell st (storage_of w) of Pointer a \<Rightarrow> Some a | _ \<Rightarrow> None))"

text \<open>
  A program as a sequence of statements on named wrappers. Each statement is one member
  function of the header, run on the wrappers the statement names.
\<close>

datatype ('a, 'r) stmt =
    Declare nat
  | Bind nat ctype "'a \<Rightarrow> 'r"
  | CopyConstruct nat nat
  | MoveConstruct nat nat
  | CopyAssign nat nat
  | MoveAssign nat nat
  | Swap nat nat
  | Destroy nat

fun exec :: "('a, 'r) stmt \<Rightarrow> ('a, 'r) state \<Rightarrow> error + ('a, 'r) state" where
  "exec (Declare n) st = Inr (function_default (var n) st)"
| "exec (Bind n T v) st = Inr (function_from (var n) T v st)"
| "exec (CopyConstruct n m) st = function_copy (var n) (var m) st"
| "exec (MoveConstruct n m) st = function_move (var n) (var m) st"
| "exec (CopyAssign n m) st = assign_copy (var n) (var m) st"
| "exec (MoveAssign n m) st = assign_move (var n) (var m) st"
| "exec (Swap n m) st = swap (var n) (var m) st"
| "exec (Destroy n) st = function_dtor (var n) st"

fun run :: "('a, 'r) stmt list \<Rightarrow> ('a, 'r) state \<Rightarrow> error + ('a, 'r) state" where
  "run [] st = Inr st"
| "run (x # xs) st = and_then (exec x st) (run xs)"

text \<open>
  The wrappers in scope after a statement, and the scoping the language enforces: a
  constructor runs on a name that is not in scope, every other statement on names that are.
\<close>

fun scope_after :: "('a, 'r) stmt \<Rightarrow> nat set \<Rightarrow> nat set" where
  "scope_after (Declare n) L = insert n L"
| "scope_after (Bind n T v) L = insert n L"
| "scope_after (CopyConstruct n m) L = insert n L"
| "scope_after (MoveConstruct n m) L = insert n L"
| "scope_after (Destroy n) L = L - {n}"
| "scope_after _ L = L"

fun in_scope :: "nat set \<Rightarrow> ('a, 'r) stmt \<Rightarrow> bool" where
  "in_scope L (Declare n) \<longleftrightarrow> n \<notin> L"
| "in_scope L (Bind n T v) \<longleftrightarrow> n \<notin> L"
| "in_scope L (CopyConstruct n m) \<longleftrightarrow> n \<notin> L \<and> m \<in> L"
| "in_scope L (MoveConstruct n m) \<longleftrightarrow> n \<notin> L \<and> m \<in> L"
| "in_scope L (CopyAssign n m) \<longleftrightarrow> n \<in> L \<and> m \<in> L"
| "in_scope L (MoveAssign n m) \<longleftrightarrow> n \<in> L \<and> m \<in> L"
| "in_scope L (Swap n m) \<longleftrightarrow> n \<in> L \<and> m \<in> L"
| "in_scope L (Destroy n) \<longleftrightarrow> n \<in> L"

fun scoped :: "nat set \<Rightarrow> ('a, 'r) stmt list \<Rightarrow> bool" where
  "scoped L [] \<longleftrightarrow> True"
| "scoped L (x # xs) \<longleftrightarrow> in_scope L x \<and> scoped (scope_after x L) xs"

fun scope_at_end :: "nat set \<Rightarrow> ('a, 'r) stmt list \<Rightarrow> nat set" where
  "scope_at_end L [] = L"
| "scope_at_end L (x # xs) = scope_at_end (scope_after x L) xs"

text \<open>
  What each statement is expected to do to the heap when every bound wrapper is in boxed
  mode: the number of \<^verbatim>\<open>new\<close> expressions it evaluates, the number of \<^verbatim>\<open>delete\<close>
  expressions it evaluates, and, for the two moves, that the target takes over the block of
  the source and the source is left without one.
\<close>

fun new_count :: "('a, 'r) stmt \<Rightarrow> ('a, 'r) state \<Rightarrow> nat" where
  "new_count (Bind n T v) st = 1"
| "new_count (CopyConstruct n m) st = (if operator_bool (var m) st then 1 else 0)"
| "new_count (CopyAssign n m) st = (if n \<noteq> m \<and> operator_bool (var m) st then 1 else 0)"
| "new_count _ st = 0"

fun delete_count :: "('a, 'r) stmt \<Rightarrow> ('a, 'r) state \<Rightarrow> nat" where
  "delete_count (Destroy n) st = (if operator_bool (var n) st then 1 else 0)"
| "delete_count (CopyAssign n m) st = (if n \<noteq> m \<and> operator_bool (var n) st then 1 else 0)"
| "delete_count (MoveAssign n m) st = (if n \<noteq> m \<and> operator_bool (var n) st then 1 else 0)"
| "delete_count _ st = 0"

fun pointer_moved :: "('a, 'r) stmt \<Rightarrow> ('a, 'r) state \<Rightarrow> ('a, 'r) state \<Rightarrow> bool" where
  "pointer_moved (MoveConstruct n m) st st' \<longleftrightarrow>
     block_of st' (var n) = block_of st (var m) \<and> block_of st' (var m) = None"
| "pointer_moved (MoveAssign n m) st st' \<longleftrightarrow>
     (if n = m then block_of st' (var n) = block_of st (var n)
      else block_of st' (var n) = block_of st (var m) \<and> block_of st' (var m) = None)"
| "pointer_moved _ st st' \<longleftrightarrow> True"

text \<open>The statements that bind a callable bind one of a type stored in boxed mode.\<close>

fun binds_boxed :: "('a, 'r) stmt \<Rightarrow> bool" where
  "binds_boxed (Bind n T v) \<longleftrightarrow> \<not> fits_small T"
| "binds_boxed _ \<longleftrightarrow> True"

text \<open>
  The ownership of heap blocks by the wrappers in \<open>L\<close>: each wrapper is empty or bound to
  an object in a block, no two wrappers point to the same block, every allocated block
  belongs to a wrapper, and the blocks allocated are those of the \<^verbatim>\<open>new\<close> expressions
  not yet matched by a \<^verbatim>\<open>delete\<close>.
\<close>

definition empty_or_boxed :: "('a, 'r) state \<Rightarrow> oref \<Rightarrow> bool" where
  "empty_or_boxed st w \<longleftrightarrow>
     (case desc (objs st w) of
        empty_table \<Rightarrow> True
      | table_of T \<Rightarrow> \<not> fits_small T \<and> (\<exists>v. bound_to st w T v))"

definition balanced :: "oref set \<Rightarrow> ('a, 'r) state \<Rightarrow> bool" where
  "balanced L st \<longleftrightarrow>
     finite L \<and>
     (\<forall>w\<in>L. empty_or_boxed st w) \<and>
     (\<forall>w\<in>L. \<forall>w'\<in>L. block_of st w = block_of st w' \<longrightarrow> block_of st w = None \<or> w = w') \<and>
     (\<forall>a\<in>dom (heap st). \<exists>w\<in>L. block_of st w = Some a) \<and>
     dom (heap st) \<subseteq> {..<allocs st} \<and>
     allocs st = frees st + card (dom (heap st))"

text \<open>
  The table \<open>d\<close> can move what the cell \<open>src\<close> holds: a table in boxed mode or the empty
  table always can; a table in inline mode can when the assignment and the destructor of
  its type are trivial and the cell holds an object of the type. \<open>unboxed\<close> singles out the
  tables in inline mode.
\<close>

definition unboxed :: "desc_ptr \<Rightarrow> bool" where
  "unboxed d = (case d of empty_table \<Rightarrow> False | table_of T \<Rightarrow> fits_small T)"

definition movable :: "('a, 'r) state \<Rightarrow> desc_ptr \<Rightarrow> cref \<Rightarrow> bool" where
  "movable st d src \<longleftrightarrow>
     (case d of
        empty_table \<Rightarrow> True
      | table_of T \<Rightarrow>
          fits_small T \<longrightarrow>
            is_trivially_move_assignable T \<and> is_trivially_destructible T \<and>
            (\<exists>v. cell st src = Object T v))"

subsection \<open>Example inputs\<close>

text \<open>A program before its first statement.\<close>

definition init :: "('a, 'r) state" where
  "init = \<lparr> objs = (\<lambda>_. \<lparr>storage = Indeterminate, desc = empty_table\<rparr>),
            tmp_cell = Indeterminate, heap = Map.empty, allocs = 0, frees = 0 \<rparr>"

text \<open>
  \<^verbatim>\<open>struct small_func { int operator()() const { return 42; } };\<close>: one byte, every
  special member trivial.
\<close>

definition small_func :: ctype where
  "small_func = \<lparr> tname = ''small_func'', sizeof = 1, alignof = 1,
     is_nothrow_move_assignable = True, is_nothrow_move_constructible = True,
     is_trivially_move_assignable = True, is_trivially_destructible = True \<rparr>"

text \<open>
  \<^verbatim>\<open>struct large_func { int a, b, c; int operator()(int x) const { return a + b + c + x; } };\<close>:
  twelve bytes, so it does not fit.
\<close>

definition large_func :: ctype where
  "large_func = \<lparr> tname = ''large_func'', sizeof = 12, alignof = 4,
     is_nothrow_move_assignable = True, is_nothrow_move_constructible = True,
     is_trivially_move_assignable = True, is_trivially_destructible = True \<rparr>"

text \<open>
  A four-byte callable that registers itself: a \<^verbatim>\<open>noexcept\<close> move constructor and move
  assignment and a destructor, all three user-provided. It fits.
\<close>

definition tracked_func :: ctype where
  "tracked_func = \<lparr> tname = ''tracked_func'', sizeof = 4, alignof = 4,
     is_nothrow_move_assignable = True, is_nothrow_move_constructible = True,
     is_trivially_move_assignable = False, is_trivially_destructible = False \<rparr>"

text \<open>
  One wrapper bound to each example type, two wrappers bound to the registering type, and
  a program on wrappers bound to the twelve-byte type that ends with every wrapper
  destroyed.
\<close>

definition ex_small :: "(unit, int) state" where
  "ex_small = function_from (var 0) small_func (\<lambda>_. 42) init"

definition ex_large :: "(int, int) state" where
  "ex_large = function_from (var 0) large_func (\<lambda>x. 6 + x) init"

definition ex_tracked :: "(unit, int) state" where
  "ex_tracked = function_from (var 0) tracked_func (\<lambda>_. 1) init"

definition ex_tracked2 :: "(unit, int) state" where
  "ex_tracked2 = function_from (var 1) tracked_func (\<lambda>_. 2) ex_tracked"

definition ex_program :: "(int, int) stmt list" where
  "ex_program =
     [Bind 0 large_func (\<lambda>x. 6 + x), CopyConstruct 1 0, MoveConstruct 2 0, Swap 1 2,
      Declare 3, MoveAssign 3 1, CopyAssign 0 3, CopyAssign 2 2, Destroy 3, Destroy 0,
      Destroy 2, Destroy 1]"

section \<open>Supporting lemmas\<close>

subsection \<open>What an update leaves alone\<close>

lemma cell_set_cell: "cell (set_cell c s st) c' = (if c' = c then s else cell st c')"
  by (auto simp: cell_def set_cell_def split: cref.splits)

lemma desc_set_cell: "desc (objs (set_cell c s st) w) = desc (objs st w)"
  by (auto simp: set_cell_def split: cref.splits)

lemma heap_set_cell: "heap (set_cell c s st) = heap st"
  by (auto simp: set_cell_def split: cref.splits)

lemma allocs_set_cell: "allocs (set_cell c s st) = allocs st"
  by (auto simp: set_cell_def split: cref.splits)

lemma frees_set_cell: "frees (set_cell c s st) = frees st"
  by (auto simp: set_cell_def split: cref.splits)

lemma cell_set_desc: "cell (set_desc w d st) c = cell st c"
  by (auto simp: cell_def set_desc_def split: cref.splits)

lemma desc_set_desc: "desc (objs (set_desc w d st) w') = (if w' = w then d else desc (objs st w'))"
  by (auto simp: set_desc_def)

lemma heap_set_desc: "heap (set_desc w d st) = heap st"
  by (simp add: set_desc_def)

lemma allocs_set_desc: "allocs (set_desc w d st) = allocs st"
  by (simp add: set_desc_def)

lemma frees_set_desc: "frees (set_desc w d st) = frees st"
  by (simp add: set_desc_def)

lemma cell_fresh: "cell (fresh w d st) c = (if c = storage_of w then Indeterminate else cell st c)"
  by (auto simp: cell_def fresh_def split: cref.splits)

lemma desc_fresh: "desc (objs (fresh w d st) w') = (if w' = w then d else desc (objs st w'))"
  by (auto simp: fresh_def)

lemma heap_fresh: "heap (fresh w d st) = heap st"
  by (simp add: fresh_def)

lemma allocs_fresh: "allocs (fresh w d st) = allocs st"
  by (simp add: fresh_def)

lemma frees_fresh: "frees (fresh w d st) = frees st"
  by (simp add: fresh_def)

lemma cell_tmp_reset: "cell (st\<lparr>tmp_cell := s\<rparr>) c = (if c = tmp then s else cell st c)"
  by (auto simp: cell_def split: cref.splits)

lemma cell_heap_upd: "cell (st\<lparr>heap := h\<rparr>) c = cell st c"
  by (auto simp: cell_def split: cref.splits)

lemma cell_allocs_upd: "cell (st\<lparr>allocs := n\<rparr>) c = cell st c"
  by (auto simp: cell_def split: cref.splits)

lemma cell_frees_upd: "cell (st\<lparr>frees := n\<rparr>) c = cell st c"
  by (auto simp: cell_def split: cref.splits)

lemmas frame = cell_set_cell desc_set_cell heap_set_cell allocs_set_cell frees_set_cell
  cell_set_desc desc_set_desc heap_set_desc allocs_set_desc frees_set_desc
  cell_fresh desc_fresh heap_fresh allocs_fresh frees_fresh cell_tmp_reset
  cell_heap_upd cell_allocs_upd cell_frees_upd

subsection \<open>What the client-level predicates look at\<close>

lemma bound_to_iff:
  "bound_to st w T v \<longleftrightarrow> desc (objs st w) = table_of T \<and>
     (if fits_small T then cell st (storage_of w) = Object T v
      else (\<exists>a. cell st (storage_of w) = Pointer a \<and> heap st a = Some (Object T v)))"
  by (auto simp: bound_to_def get_descriptor_def load_def slot_at_def ptr_from_storage_def
      split: slot.splits option.splits if_splits)

lemma bound_to_cong:
  "desc (objs st' w) = desc (objs st w) \<Longrightarrow> cell st' (storage_of w) = cell st (storage_of w)
    \<Longrightarrow> heap st' = heap st \<Longrightarrow> bound_to st' w T v = bound_to st w T v"
  by (simp add: bound_to_iff)

lemma block_of_cong:
  "desc (objs st' w) = desc (objs st w) \<Longrightarrow> cell st' (storage_of w) = cell st (storage_of w)
    \<Longrightarrow> block_of st' w = block_of st w"
  by (simp add: block_of_def split: desc_ptr.splits)

subsection \<open>Moves and swaps of wrappers that are empty or boxed\<close>

lemma move_deref:
  "\<not> unboxed d \<Longrightarrow> move (deref d) src dst st =
     Inr (if d = empty_table then st else set_cell dst (cell st src) st)"
  by (cases d) (auto simp: unboxed_def get_empty_func_descriptor_def get_descriptor_def)

lemma swap_boxed:
  assumes "\<not> unboxed (desc (objs st this))" "\<not> unboxed (desc (objs st other))"
  shows "\<exists>st'. swap this other st = Inr st' \<and> heap st' = heap st \<and> allocs st' = allocs st
     \<and> frees st' = frees st
     \<and> (\<forall>w. desc (objs st' w) = (if w = this then desc (objs st other) else if w = other then desc (objs st this) else desc (objs st w)))
     \<and> (\<forall>w. w \<noteq> this \<longrightarrow> w \<noteq> other \<longrightarrow> cell st' (storage_of w) = cell st (storage_of w))
     \<and> (desc (objs st other) \<noteq> empty_table \<longrightarrow> cell st' (storage_of this) = cell st (storage_of other))
     \<and> (desc (objs st this) \<noteq> empty_table \<longrightarrow> cell st' (storage_of other) = cell st (storage_of this))"
  using assms
  by (auto simp: swap_def Let_def move_deref frame simp del: deref.simps)

subsection \<open>The ownership invariant\<close>

lemma empty_or_boxed_cong:
  "desc (objs st' w) = desc (objs st w) \<Longrightarrow> cell st' (storage_of w) = cell st (storage_of w)
    \<Longrightarrow> heap st' = heap st \<Longrightarrow> empty_or_boxed st' w = empty_or_boxed st w"
  using bound_to_cong[of st' w st] by (auto simp add: empty_or_boxed_def split: desc_ptr.splits)

lemma balanced_dom: "balanced L st \<Longrightarrow> dom (heap st) \<subseteq> {..<allocs st}"
  unfolding balanced_def by blast

lemma balanced_count: "balanced L st \<Longrightarrow> allocs st = frees st + card (dom (heap st))"
  unfolding balanced_def by blast

lemma balanced_eb: "balanced L st \<Longrightarrow> w \<in> L \<Longrightarrow> empty_or_boxed st w"
  by (simp add: balanced_def)

lemma balanced_owner: "balanced L st \<Longrightarrow> heap st a = Some s \<Longrightarrow> \<exists>w\<in>L. block_of st w = Some a"
  unfolding balanced_def by blast

lemma balanced_inj:
  assumes "balanced L st" "w \<in> L" "w' \<in> L" "block_of st w = Some a" "block_of st w' = Some a"
  shows "w = w'"
proof -
  have "\<forall>w\<in>L. \<forall>w'\<in>L. block_of st w = block_of st w' \<longrightarrow> block_of st w = None \<or> w = w'"
    using assms(1) unfolding balanced_def by blast
  then have "block_of st w = block_of st w' \<longrightarrow> block_of st w = None \<or> w = w'"
    using assms(2,3) by blast
  then show ?thesis using assms(4,5) by simp
qed

lemma balanced_fresh:
  assumes "balanced L st" shows "heap st (allocs st) = None"
proof -
  have "dom (heap st) \<subseteq> {..<allocs st}" using assms unfolding balanced_def by blast
  then have "allocs st \<notin> dom (heap st)" by auto
  then show ?thesis by auto
qed

lemma balanced_finite:
  assumes "balanced L st" shows "finite L" "finite (dom (heap st))"
proof -
  show "finite L" using assms unfolding balanced_def by blast
  have "dom (heap st) \<subseteq> {..<allocs st}" using assms unfolding balanced_def by blast
  then show "finite (dom (heap st))" using finite_subset by blast
qed

lemma balancedI:
  assumes "finite L" "\<And>w. w \<in> L \<Longrightarrow> empty_or_boxed st w"
    "\<And>w w' a. w \<in> L \<Longrightarrow> w' \<in> L \<Longrightarrow> block_of st w = Some a \<Longrightarrow> block_of st w' = Some a \<Longrightarrow> w = w'"
    "\<And>a s. heap st a = Some s \<Longrightarrow> \<exists>w\<in>L. block_of st w = Some a"
    "dom (heap st) \<subseteq> {..<allocs st}"
    "allocs st = frees st + card (dom (heap st))"
  shows "balanced L st"
proof -
  have 1: "\<forall>w\<in>L. empty_or_boxed st w" using assms(2) by blast
  have 2: "\<forall>w\<in>L. \<forall>w'\<in>L. block_of st w = block_of st w' \<longrightarrow> block_of st w = None \<or> w = w'"
  proof (intro ballI impI)
    fix w w' assume h: "w \<in> L" "w' \<in> L" "block_of st w = block_of st w'"
    show "block_of st w = None \<or> w = w'"
    proof (cases "block_of st w")
      case None then show ?thesis by simp
    next
      case (Some a) then show ?thesis using assms(3)[OF h(1,2), of a] h(3) by simp
    qed
  qed
  have 3: "\<forall>a\<in>dom (heap st). \<exists>w\<in>L. block_of st w = Some a" using assms(4) by blast
  show ?thesis unfolding balanced_def using assms(1,5,6) 1 2 3 by blast
qed

lemma empty_or_boxed_unboxed: "empty_or_boxed st w \<Longrightarrow> \<not> unboxed (desc (objs st w))"
  by (auto simp: empty_or_boxed_def unboxed_def split: desc_ptr.splits)

lemma empty_or_boxed_iff:
  "empty_or_boxed st w \<longleftrightarrow>
     (case desc (objs st w) of empty_table \<Rightarrow> True
      | table_of T \<Rightarrow> \<not> fits_small T \<and>
          (\<exists>a v. cell st (storage_of w) = Pointer a \<and> heap st a = Some (Object T v)))"
  by (auto simp: empty_or_boxed_def bound_to_iff split: desc_ptr.splits)

lemma block_of_empty: "desc (objs st w) = empty_table \<Longrightarrow> block_of st w = None"
  by (simp add: block_of_def)

lemma swap_boxed_obs:
  assumes "empty_or_boxed st this" "empty_or_boxed st other"
  shows "\<exists>st'. swap this other st = Inr st' \<and> heap st' = heap st \<and> allocs st' = allocs st
     \<and> frees st' = frees st
     \<and> (\<forall>w. empty_or_boxed st' w = empty_or_boxed st (if w = this then other else if w = other then this else w))
     \<and> (\<forall>w. block_of st' w = block_of st (if w = this then other else if w = other then this else w))"
proof -
  from swap_boxed[OF empty_or_boxed_unboxed[OF assms(1)] empty_or_boxed_unboxed[OF assms(2)]]
  obtain st' where s: "swap this other st = Inr st'" "heap st' = heap st" "allocs st' = allocs st"
     "frees st' = frees st"
     "\<And>w. desc (objs st' w) = (if w = this then desc (objs st other) else if w = other then desc (objs st this) else desc (objs st w))"
     "\<And>w. w \<noteq> this \<Longrightarrow> w \<noteq> other \<Longrightarrow> cell st' (storage_of w) = cell st (storage_of w)"
     "desc (objs st other) \<noteq> empty_table \<Longrightarrow> cell st' (storage_of this) = cell st (storage_of other)"
     "desc (objs st this) \<noteq> empty_table \<Longrightarrow> cell st' (storage_of other) = cell st (storage_of this)"
    by blast
  have a: "empty_or_boxed st' w = empty_or_boxed st (if w = this then other else if w = other then this else w)" for w
    using s(2,5,6,7,8) by (auto simp: empty_or_boxed_iff split: desc_ptr.splits)
  have b: "block_of st' w = block_of st (if w = this then other else if w = other then this else w)" for w
    using s(5,6,7,8) by (auto simp: block_of_def split: desc_ptr.splits)
  show ?thesis using s(1-4) a b by blast
qed

lemma balanced_swap:
  assumes "balanced L st" "this \<in> L" "other \<in> L"
  shows "\<exists>st'. swap this other st = Inr st' \<and> balanced L st'
     \<and> heap st' = heap st \<and> allocs st' = allocs st \<and> frees st' = frees st
     \<and> (\<forall>w. block_of st' w = block_of st (if w = this then other else if w = other then this else w))"
proof -
  have eb: "empty_or_boxed st this" "empty_or_boxed st other"
    using assms by (auto simp: balanced_def)
  define p where "p = (\<lambda>w. if w = this then other else if w = other then this else w)"
  from swap_boxed_obs[OF eb] obtain st' where s: "swap this other st = Inr st'"
    "heap st' = heap st" "allocs st' = allocs st" "frees st' = frees st"
    "\<And>w. empty_or_boxed st' w = empty_or_boxed st (p w)"
    "\<And>w. block_of st' w = block_of st (p w)"
    unfolding p_def by blast
  have pL: "\<And>w. w \<in> L \<Longrightarrow> p w \<in> L" using assms(2,3) by (auto simp: p_def)
  have pp: "\<And>w. p (p w) = w" by (auto simp: p_def)
  have pinj: "\<And>w w'. p w = p w' \<Longrightarrow> w = w'" by (metis pp)
  have "balanced L st'"
  proof (rule balancedI)
    show "finite L" using assms(1) by (simp add: balanced_def)
    show "empty_or_boxed st' w" if "w \<in> L" for w
      using balanced_eb[OF assms(1) pL[OF that]] by (simp add: s(5))
    show "w = w'" if "w \<in> L" "w' \<in> L" "block_of st' w = Some a" "block_of st' w' = Some a" for w w' a
      using balanced_inj[OF assms(1) pL[OF that(1)] pL[OF that(2)], of a] that(3,4) pinj by (simp add: s(6))
    show "\<exists>w\<in>L. block_of st' w = Some a" if "heap st' a = Some s" for a s
    proof -
      from that obtain w where "w \<in> L" "block_of st w = Some a"
        using balanced_owner[OF assms(1)] s(2) by metis
      then have "p w \<in> L" "block_of st' (p w) = Some a" using pL s(6) pp by auto
      then show ?thesis by blast
    qed
    show "dom (heap st') \<subseteq> {..<allocs st'}" using balanced_dom[OF assms(1)] by (simp add: s(2,3))
    show "allocs st' = frees st' + card (dom (heap st'))" using balanced_count[OF assms(1)] by (simp add: s(2,3,4))
  qed
  then show ?thesis using s(1,2,3,4,6) unfolding p_def by blast
qed

lemma block_of_boxed:
  "empty_or_boxed st w \<Longrightarrow> block_of st w = Some a \<Longrightarrow>
     \<exists>T v. desc (objs st w) = table_of T \<and> \<not> fits_small T \<and> cell st (storage_of w) = Pointer a \<and> heap st a = Some (Object T v)"
  by (auto simp: empty_or_boxed_iff block_of_def split: desc_ptr.splits if_splits slot.splits)

lemma block_of_bound:
  "empty_or_boxed st w \<Longrightarrow> desc (objs st w) = table_of T \<Longrightarrow>
     \<exists>a v. \<not> fits_small T \<and> cell st (storage_of w) = Pointer a \<and> heap st a = Some (Object T v) \<and> block_of st w = Some a"
  by (auto simp: empty_or_boxed_iff block_of_def split: desc_ptr.splits if_splits slot.splits)

text \<open>A wrapper comes into scope with a block of its own.\<close>

lemma balanced_extend:
  assumes b: "balanced L st" and n: "this \<notin> L" and T: "\<not> fits_small T"
    and h: "heap st' = (heap st)(allocs st \<mapsto> Object T v)" "allocs st' = allocs st + 1" "frees st' = frees st"
    and o: "\<And>w. w \<noteq> this \<Longrightarrow> desc (objs st' w) = desc (objs st w) \<and> cell st' (storage_of w) = cell st (storage_of w)"
    and t: "desc (objs st' this) = table_of T" "cell st' (storage_of this) = Pointer (allocs st)"
  shows "balanced (insert this L) st'"
proof (rule balancedI)
  note fr = balanced_fresh[OF b]
  have bo: "block_of st' w = block_of st w" if "w \<noteq> this" for w
    using o[OF that] by (intro block_of_cong) auto
  have bt: "block_of st' this = Some (allocs st)" using t T by (simp add: block_of_def)
  have old: "block_of st w \<noteq> Some (allocs st)" if "w \<in> L" for w
    using block_of_boxed[OF balanced_eb[OF b that], of "allocs st"] fr by auto
  show "finite (insert this L)" using balanced_finite[OF b] by simp
  show "empty_or_boxed st' w" if "w \<in> insert this L" for w
  proof (cases "w = this")
    case True then show ?thesis using t T h by (simp add: empty_or_boxed_iff)
  next
    case False
    then have wL: "w \<in> L" using that by simp
    have d: "desc (objs st' w) = desc (objs st w)" "cell st' (storage_of w) = cell st (storage_of w)"
      using o[OF False] by auto
    have k: "heap st a = Some x \<Longrightarrow> heap st' a = Some x" for a x
      using fr h(1) by (cases "a = allocs st") auto
    show ?thesis using balanced_eb[OF b wL] k unfolding empty_or_boxed_iff d
      by (auto split: desc_ptr.splits)
  qed
  show "w = w'" if "w \<in> insert this L" "w' \<in> insert this L" "block_of st' w = Some a" "block_of st' w' = Some a" for w w' a
  proof (cases "w = this"; cases "w' = this")
    assume c: "w = this" "w' \<noteq> this"
    then have "w' \<in> L" "block_of st w' = Some (allocs st)" using that bo[of w'] bt by auto
    then show ?thesis using old by blast
  next
    assume c: "w \<noteq> this" "w' = this"
    then have "w \<in> L" "block_of st w = Some (allocs st)" using that bo[of w] bt by auto
    then show ?thesis using old by blast
  next
    assume c: "w \<noteq> this" "w' \<noteq> this"
    then have "w \<in> L" "w' \<in> L" "block_of st w = Some a" "block_of st w' = Some a"
      using that bo[of w] bo[of w'] by auto
    then show ?thesis by (rule balanced_inj[OF b])
  qed simp
  show "\<exists>w\<in>insert this L. block_of st' w = Some a" if "heap st' a = Some s" for a s
  proof (cases "a = allocs st")
    case True then show ?thesis using bt by blast
  next
    case False
    then have "heap st a = Some s" using that h(1) by simp
    then obtain w where w: "w \<in> L" "block_of st w = Some a" using balanced_owner[OF b] by blast
    then have "w \<noteq> this" using n by auto
    then show ?thesis using bo[of w] w by auto
  qed
  show "dom (heap st') \<subseteq> {..<allocs st'}" using balanced_dom[OF b] h by auto
  have "allocs st \<notin> dom (heap st)" using fr by auto
  then have "card (dom (heap st')) = Suc (card (dom (heap st)))"
    using balanced_finite(2)[OF b] h(1) by simp
  then show "allocs st' = frees st' + card (dom (heap st'))" using balanced_count[OF b] h by simp
qed

text \<open>A wrapper comes into scope empty.\<close>

lemma balanced_extend_empty:
  assumes b: "balanced L st"
    and h: "heap st' = heap st" "allocs st' = allocs st" "frees st' = frees st"
    and o: "\<And>w. w \<noteq> this \<Longrightarrow> desc (objs st' w) = desc (objs st w) \<and> cell st' (storage_of w) = cell st (storage_of w)"
    and t: "desc (objs st' this) = empty_table"
    and n: "this \<notin> L \<or> block_of st this = None"
  shows "balanced (insert this L) st'"
proof (rule balancedI)
  have bo: "block_of st' w = block_of st w" if "w \<noteq> this" for w
    using o[OF that] by (intro block_of_cong) auto
  have bt: "block_of st' this = None" using t by (simp add: block_of_def)
  show "finite (insert this L)" using balanced_finite[OF b] by simp
  show "empty_or_boxed st' w" if "w \<in> insert this L" for w
  proof (cases "w = this")
    case True then show ?thesis using t by (simp add: empty_or_boxed_iff)
  next
    case False
    then have wL: "w \<in> L" using that by simp
    have "empty_or_boxed st' w = empty_or_boxed st w"
      using o[OF False] h(1) by (intro empty_or_boxed_cong) auto
    then show ?thesis using balanced_eb[OF b wL] by simp
  qed
  show "w = w'" if "w \<in> insert this L" "w' \<in> insert this L" "block_of st' w = Some a" "block_of st' w' = Some a" for w w' a
  proof -
    have c: "w \<noteq> this" "w' \<noteq> this" using that bt by auto
    then have "w \<in> L" "w' \<in> L" "block_of st w = Some a" "block_of st w' = Some a"
      using that bo[of w] bo[of w'] by auto
    then show ?thesis by (rule balanced_inj[OF b])
  qed
  show "\<exists>w\<in>insert this L. block_of st' w = Some a" if "heap st' a = Some s" for a s
  proof -
    from that have "heap st a = Some s" using h(1) by simp
    then obtain w where w: "w \<in> L" "block_of st w = Some a" using balanced_owner[OF b] by blast
    then have "w \<noteq> this" using n by auto
    then show ?thesis using bo[of w] w by auto
  qed
  show "dom (heap st') \<subseteq> {..<allocs st'}" using balanced_dom[OF b] h by auto
  show "allocs st' = frees st' + card (dom (heap st'))" using balanced_count[OF b] h by simp
qed

text \<open>A wrapper leaves the scope and its block is released.\<close>

lemma balanced_remove:
  assumes b: "balanced L st" and i: "this \<in> L" and bl: "block_of st this = Some a"
    and h: "heap st' = (heap st)(a := None)" "allocs st' = allocs st" "frees st' = frees st + 1"
    and o: "\<And>w. w \<noteq> this \<Longrightarrow> desc (objs st' w) = desc (objs st w) \<and> cell st' (storage_of w) = cell st (storage_of w)"
  shows "balanced (L - {this}) st'"
proof (rule balancedI)
  have bo: "block_of st' w = block_of st w" if "w \<noteq> this" for w
    using o[OF that] by (intro block_of_cong) auto
  have other: "block_of st w \<noteq> Some a" if "w \<in> L" "w \<noteq> this" for w
    using balanced_inj[OF b that(1) i, of a] bl that(2) by auto
  obtain s where s: "heap st a = Some s" using block_of_boxed[OF balanced_eb[OF b i] bl] by auto
  show "finite (L - {this})" using balanced_finite[OF b] by simp
  show "empty_or_boxed st' w" if "w \<in> L - {this}" for w
  proof -
    have w: "w \<in> L" "w \<noteq> this" using that by auto
    have d: "desc (objs st' w) = desc (objs st w)" "cell st' (storage_of w) = cell st (storage_of w)"
      using o[OF w(2)] by auto
    have k: "cell st (storage_of w) = Pointer a' \<Longrightarrow> desc (objs st w) = table_of T' \<Longrightarrow> \<not> fits_small T'
        \<Longrightarrow> heap st' a' = heap st a'" for a' T'
      using other[OF w] h(1) by (cases "a' = a") (auto simp: block_of_def)
    show ?thesis using balanced_eb[OF b w(1)] k unfolding empty_or_boxed_iff d
      by (auto split: desc_ptr.splits)
  qed
  show "w = w'" if "w \<in> L - {this}" "w' \<in> L - {this}" "block_of st' w = Some a'" "block_of st' w' = Some a'" for w w' a'
  proof -
    have "w \<in> L" "w' \<in> L" "block_of st w = Some a'" "block_of st w' = Some a'"
      using that bo[of w] bo[of w'] by auto
    then show ?thesis by (rule balanced_inj[OF b])
  qed
  show "\<exists>w\<in>L - {this}. block_of st' w = Some a'" if "heap st' a' = Some s'" for a' s'
  proof -
    from that have ne: "a' \<noteq> a" and "heap st a' = Some s'" using h(1) by (auto split: if_splits)
    then obtain w where w: "w \<in> L" "block_of st w = Some a'" using balanced_owner[OF b] by blast
    then have "w \<noteq> this" using bl ne by auto
    then show ?thesis using bo[of w] w by auto
  qed
  show "dom (heap st') \<subseteq> {..<allocs st'}" using balanced_dom[OF b] h by auto
  have "a \<in> dom (heap st)" using s by auto
  then have "Suc (card (dom (heap st) - {a})) = card (dom (heap st))"
    using balanced_finite(2)[OF b] by (rule_tac card_Suc_Diff1)
  then have "Suc (card (dom (heap st'))) = card (dom (heap st))"
    using h(1) by simp
  then show "allocs st' = frees st' + card (dom (heap st'))" using balanced_count[OF b] h by simp
qed

text \<open>An empty wrapper leaves the scope.\<close>

lemma balanced_remove_empty:
  assumes b: "balanced L st" and bl: "block_of st this = None"
  shows "balanced (L - {this}) st"
proof (rule balancedI)
  show "finite (L - {this})" using balanced_finite[OF b] by simp
  show "empty_or_boxed st w" if "w \<in> L - {this}" for w using balanced_eb[OF b] that by simp
  show "w = w'" if "w \<in> L - {this}" "w' \<in> L - {this}" "block_of st w = Some a'" "block_of st w' = Some a'" for w w' a'
    using that balanced_inj[OF b, of w w' a'] by auto
  show "\<exists>w\<in>L - {this}. block_of st w = Some a'" if "heap st a' = Some s'" for a' s'
  proof -
    from that obtain w where w: "w \<in> L" "block_of st w = Some a'" using balanced_owner[OF b] by blast
    then have "w \<noteq> this" using bl by auto
    then show ?thesis using w by auto
  qed
  show "dom (heap st) \<subseteq> {..<allocs st}" using balanced_dom[OF b] .
  show "allocs st = frees st + card (dom (heap st))" using balanced_count[OF b] .
qed

subsection \<open>Each member function keeps the invariant\<close>

lemma balanced_default:
  assumes "balanced L st" "this \<notin> L"
  shows "balanced (insert this L) (function_default this st)"
  using assms(1)
  by (rule balanced_extend_empty) (use assms(2) in \<open>auto simp: function_default_def frame\<close>)

lemma balanced_from:
  assumes "balanced L st" "this \<notin> L" "\<not> fits_small T"
  shows "balanced (insert this L) (function_from this T v st)"
  using assms
  by (rule balanced_extend)
     (use assms(3) in \<open>auto simp: function_from_def new_def Let_def frame\<close>)

lemma load_boxed:
  "cell st c = Pointer a \<Longrightarrow> heap st a = Some (Object T v) \<Longrightarrow> load T (ptr_from_storage st c) st = Inr v"
  by (simp add: load_def ptr_from_storage_def slot_at_def)

lemma balanced_copy:
  assumes b: "balanced L st" and n: "this \<notin> L" and i: "other \<in> L"
  shows "\<exists>st'. function_copy this other st = Inr st' \<and> balanced (insert this L) st'
     \<and> allocs st' = allocs st + (if block_of st other = None then 0 else 1) \<and> frees st' = frees st
     \<and> (\<forall>w. w \<noteq> this \<longrightarrow> block_of st' w = block_of st w)
     \<and> block_of st' this = (if block_of st other = None then None else Some (allocs st))"
proof (cases "desc (objs st other)")
  case empty_table
  have ne: "other \<noteq> this" using n i by auto
  have "function_copy this other st = Inr (fresh this empty_table st)"
    using empty_table ne by (simp add: function_copy_def Let_def frame get_empty_func_descriptor_def)
  moreover have "balanced (insert this L) (fresh this empty_table st)"
    using b by (rule balanced_extend_empty) (use n in \<open>auto simp: frame\<close>)
  moreover have "block_of st other = None" using empty_table by (simp add: block_of_empty)
  moreover have "block_of (fresh this empty_table st) this = None" by (simp add: block_of_def frame)
  moreover have "\<forall>w. w \<noteq> this \<longrightarrow> block_of (fresh this empty_table st) w = block_of st w"
    by (auto intro!: block_of_cong simp: frame)
  ultimately show ?thesis by (simp add: frame)
next
  case (table_of T)
  have ne: "other \<noteq> this" using n i by auto
  from block_of_bound[OF balanced_eb[OF b i] table_of] obtain a v where
    T: "\<not> fits_small T" "cell st (storage_of other) = Pointer a" "heap st a = Some (Object T v)"
       "block_of st other = Some a" by blast
  let ?st1 = "fresh this (table_of T) st"
  let ?st' = "set_cell (storage_of this) (Pointer (allocs st)) (?st1\<lparr>heap := (heap st)(allocs st \<mapsto> Object T v), allocs := allocs st + 1\<rparr>)"
  have l: "load T (ptr_from_storage ?st1 (storage_of other)) ?st1 = Inr v"
    by (rule load_boxed[where a=a]) (use T ne in \<open>auto simp: frame\<close>)
  have "function_copy this other st = Inr ?st'"
    using table_of ne T(1) l by (simp add: function_copy_def Let_def frame get_descriptor_def new_def)
  moreover have "balanced (insert this L) ?st'"
    using b n T(1) by (rule balanced_extend) (auto simp: frame)
  moreover have "block_of ?st' this = Some (allocs st)" using T(1) by (simp add: block_of_def frame)
  moreover have "\<forall>w. w \<noteq> this \<longrightarrow> block_of ?st' w = block_of st w"
    by (auto intro!: block_of_cong simp: frame)
  ultimately show ?thesis using T(4) by (simp add: frame)
qed

lemma balanced_dtor:
  assumes b: "balanced L st" and i: "this \<in> L"
  shows "\<exists>st'. function_dtor this st = Inr st' \<and> balanced (L - {this}) st'
     \<and> allocs st' = allocs st \<and> frees st' = frees st + (if block_of st this = None then 0 else 1)
     \<and> (\<forall>w. w \<noteq> this \<longrightarrow> block_of st' w = block_of st w)"
proof (cases "desc (objs st this)")
  case empty_table
  have "function_dtor this st = Inr st"
    using empty_table by (simp add: function_dtor_def get_empty_func_descriptor_def)
  moreover have "balanced (L - {this}) st"
    using b by (rule balanced_remove_empty) (simp add: block_of_empty empty_table)
  moreover have "block_of st this = None" using empty_table by (simp add: block_of_empty)
  ultimately show ?thesis by simp
next
  case (table_of T)
  from block_of_bound[OF balanced_eb[OF b i] table_of] obtain a v where
    T: "\<not> fits_small T" "cell st (storage_of this) = Pointer a" "heap st a = Some (Object T v)"
       "block_of st this = Some a" by blast
  let ?st' = "st\<lparr>heap := (heap st)(a := None), frees := frees st + 1\<rparr>"
  have "function_dtor this st = Inr ?st'"
    using table_of T by (simp add: function_dtor_def get_descriptor_def delete_def ptr_from_storage_def)
  moreover have "balanced (L - {this}) ?st'"
    using b i T(4) by (rule balanced_remove) (auto simp: frame)
  moreover have "\<forall>w. block_of ?st' w = block_of st w"
    by (auto intro!: block_of_cong simp: frame)
  ultimately show ?thesis using T(4) by simp
qed

lemma move_boxed_obs:
  assumes eb: "empty_or_boxed st other" and ne: "other \<noteq> this"
  shows "\<exists>st'. function_move this other st = Inr st' \<and> heap st' = heap st \<and> allocs st' = allocs st
     \<and> frees st' = frees st
     \<and> (\<forall>w. desc (objs st' w) = (if w = other then empty_table else if w = this then desc (objs st other) else desc (objs st w)))
     \<and> (\<forall>w. w \<noteq> this \<longrightarrow> cell st' (storage_of w) = cell st (storage_of w))
     \<and> (desc (objs st other) \<noteq> empty_table \<longrightarrow> cell st' (storage_of this) = cell st (storage_of other))"
  using empty_or_boxed_unboxed[OF eb] ne
  by (auto simp: function_move_def Let_def move_deref frame simp del: deref.simps)

lemma balanced_move:
  assumes b: "balanced L st" and n: "this \<notin> L" and i: "other \<in> L"
  shows "\<exists>st'. function_move this other st = Inr st' \<and> balanced (insert this L) st'
     \<and> heap st' = heap st \<and> allocs st' = allocs st \<and> frees st' = frees st
     \<and> block_of st' this = block_of st other \<and> block_of st' other = None
     \<and> (\<forall>w. w \<noteq> this \<longrightarrow> w \<noteq> other \<longrightarrow> block_of st' w = block_of st w)"
proof -
  have ne: "other \<noteq> this" using n i by auto
  from move_boxed_obs[OF balanced_eb[OF b i] ne] obtain st' where s:
    "function_move this other st = Inr st'" "heap st' = heap st" "allocs st' = allocs st" "frees st' = frees st"
    "\<And>w. desc (objs st' w) = (if w = other then empty_table else if w = this then desc (objs st other) else desc (objs st w))"
    "\<And>w. w \<noteq> this \<Longrightarrow> cell st' (storage_of w) = cell st (storage_of w)"
    "desc (objs st other) \<noteq> empty_table \<Longrightarrow> cell st' (storage_of this) = cell st (storage_of other)"
    by blast
  have e_this: "empty_or_boxed st' this"
    using balanced_eb[OF b i] s(2,5,7) ne by (auto simp: empty_or_boxed_iff split: desc_ptr.splits)
  have e_other: "empty_or_boxed st' other" using s(5) by (simp add: empty_or_boxed_iff)
  have e_rest: "empty_or_boxed st' w = empty_or_boxed st w" if "w \<noteq> this" "w \<noteq> other" for w
    using that s(2,5,6) by (intro empty_or_boxed_cong) auto
  have b_this: "block_of st' this = block_of st other"
    using s(5,7) ne by (auto simp: block_of_def split: desc_ptr.splits)
  have b_other: "block_of st' other = None" using s(5) by (simp add: block_of_def)
  have b_rest: "block_of st' w = block_of st w" if "w \<noteq> this" "w \<noteq> other" for w
    using that s(5,6) by (intro block_of_cong) auto
  have "balanced (insert this L) st'"
  proof (rule balancedI)
    show "finite (insert this L)" using balanced_finite[OF b] by simp
    show "empty_or_boxed st' w" if "w \<in> insert this L" for w
    proof (cases "w = this \<or> w = other")
      case True then show ?thesis using e_this e_other by auto
    next
      case False
      then have "w \<in> L" "empty_or_boxed st' w = empty_or_boxed st w" using that e_rest[of w] by auto
      then show ?thesis using balanced_eb[OF b, of w] by simp
    qed
    show "w = w'" if h: "w \<in> insert this L" "w' \<in> insert this L" "block_of st' w = Some a" "block_of st' w' = Some a" for w w' a
    proof -
      define q where "q = (\<lambda>w. if w = this then other else w)"
      have o: "w \<noteq> other" "w' \<noteq> other" using h b_other by auto
      have e: "block_of st' w = block_of st (q w)" "block_of st' w' = block_of st (q w')"
        using o b_this b_rest[of w] b_rest[of w'] by (auto simp: q_def)
      have m: "q w \<in> L" "q w' \<in> L" using h i by (auto simp: q_def)
      have "block_of st (q w) = Some a" "block_of st (q w') = Some a"
        using h(3,4) unfolding e by - assumption+
      then have "q w = q w'" by (rule balanced_inj[OF b m])
      then show ?thesis using o by (auto simp: q_def split: if_splits)
    qed
    show "\<exists>w\<in>insert this L. block_of st' w = Some a" if "heap st' a = Some x" for a x
    proof -
      from that have "heap st a = Some x" by (simp add: s(2))
      then obtain u where u: "u \<in> L" "block_of st u = Some a"
        using balanced_owner[OF b] by blast
      show ?thesis
      proof (cases "u = other")
        case True then show ?thesis using b_this u by auto
      next
        case False
        moreover have "u \<noteq> this" using u n by auto
        ultimately show ?thesis using b_rest[of u] u by auto
      qed
    qed
    show "dom (heap st') \<subseteq> {..<allocs st'}" using balanced_dom[OF b] by (simp add: s(2,3))
    show "allocs st' = frees st' + card (dom (heap st'))" using balanced_count[OF b] by (simp add: s(2,3,4))
  qed
  then show ?thesis using s(1,2,3,4) b_this b_other b_rest by blast
qed

lemma block_of_default:
  "block_of (function_default this st) w = (if w = this then None else block_of st w)"
  by (auto simp: block_of_def function_default_def frame split: desc_ptr.splits)

lemma counts_default:
  "allocs (function_default this st) = allocs st" "frees (function_default this st) = frees st"
  by (auto simp: function_default_def frame)

lemma obs_from:
  "\<not> fits_small T \<Longrightarrow> allocs (function_from this T v st) = allocs st + 1"
  "\<not> fits_small T \<Longrightarrow> frees (function_from this T v st) = frees st"
  "\<not> fits_small T \<Longrightarrow> block_of (function_from this T v st) w = (if w = this then Some (allocs st) else block_of st w)"
  by (auto simp: function_from_def Let_def new_def block_of_def frame split: desc_ptr.splits)

subsection \<open>Assignments, statements and programs\<close>

lemma bool_block: "empty_or_boxed st w \<Longrightarrow> operator_bool w st \<longleftrightarrow> block_of st w \<noteq> None"
  by (auto simp: operator_bool_def empty_or_boxed_iff block_of_def split: desc_ptr.splits)

lemma balanced_assign_copy:
  assumes b: "balanced L st" and i: "this \<in> L" "rhs \<in> L" and t: "temporary \<notin> L" and ne: "this \<noteq> rhs"
  shows "\<exists>st'. assign_copy this rhs st = Inr st' \<and> balanced L st'
     \<and> allocs st' = allocs st + (if block_of st rhs = None then 0 else 1)
     \<and> frees st' = frees st + (if block_of st this = None then 0 else 1)"
proof -
  have tn: "this \<noteq> temporary" "rhs \<noteq> temporary" using i t by auto
  from balanced_copy[OF b t i(2)] obtain st1 where 1:
    "function_copy temporary rhs st = Inr st1" "balanced (insert temporary L) st1"
    "allocs st1 = allocs st + (if block_of st rhs = None then 0 else 1)" "frees st1 = frees st"
    "\<And>w. w \<noteq> temporary \<Longrightarrow> block_of st1 w = block_of st w"
    by blast
  from balanced_swap[OF 1(2), of temporary this] i(1) obtain st2 where 2:
    "swap temporary this st1 = Inr st2" "balanced (insert temporary L) st2"
    "allocs st2 = allocs st1" "frees st2 = frees st1"
    "\<And>w. block_of st2 w = block_of st1 (if w = temporary then this else if w = this then temporary else w)"
    by auto
  from balanced_dtor[OF 2(2), of temporary] obtain st3 where 3:
    "function_dtor temporary st2 = Inr st3" "balanced (insert temporary L - {temporary}) st3"
    "allocs st3 = allocs st2" "frees st3 = frees st2 + (if block_of st2 temporary = None then 0 else 1)"
    by auto
  have "block_of st2 temporary = block_of st this" using 2(5)[of temporary] 1(5)[of this] tn by simp
  moreover have "insert temporary L - {temporary} = L" using t by auto
  moreover have "assign_copy this rhs st = Inr st3" using ne 1(1) 2(1) 3(1) by (simp add: assign_copy_def)
  ultimately show ?thesis using 1(3,4) 2(3,4) 3(2,3,4) by simp
qed

lemma balanced_assign_move:
  assumes b: "balanced L st" and i: "this \<in> L" "rhs \<in> L" and t: "temporary \<notin> L" and ne: "this \<noteq> rhs"
  shows "\<exists>st'. assign_move this rhs st = Inr st' \<and> balanced L st'
     \<and> allocs st' = allocs st
     \<and> frees st' = frees st + (if block_of st this = None then 0 else 1)
     \<and> block_of st' this = block_of st rhs \<and> block_of st' rhs = None"
proof -
  have tn: "this \<noteq> temporary" "rhs \<noteq> temporary" using i t by auto
  from balanced_swap[OF b i] obtain st1 where 1:
    "swap this rhs st = Inr st1" "balanced L st1"
    "allocs st1 = allocs st" "frees st1 = frees st"
    "\<And>w. block_of st1 w = block_of st (if w = this then rhs else if w = rhs then this else w)"
    by auto
  let ?st1 = "function_default temporary st1"
  have d: "balanced (insert temporary L) ?st1" using 1(2) t by (rule balanced_default)
  from balanced_swap[OF d, of temporary rhs] i(2) obtain st2 where 2:
    "swap temporary rhs ?st1 = Inr st2" "balanced (insert temporary L) st2"
    "allocs st2 = allocs ?st1" "frees st2 = frees ?st1"
    "\<And>w. block_of st2 w = block_of ?st1 (if w = temporary then rhs else if w = rhs then temporary else w)"
    by auto
  from balanced_dtor[OF 2(2), of temporary] obtain st3 where 3:
    "function_dtor temporary st2 = Inr st3" "balanced (insert temporary L - {temporary}) st3"
    "allocs st3 = allocs st2" "frees st3 = frees st2 + (if block_of st2 temporary = None then 0 else 1)"
    "\<And>w. w \<noteq> temporary \<Longrightarrow> block_of st3 w = block_of st2 w"
    by auto
  have "block_of st2 temporary = block_of st this"
    using 2(5)[of temporary] 1(5)[of rhs] tn ne by (simp add: block_of_default)
  moreover have "block_of st3 this = block_of st rhs"
    using 3(5)[of this] 2(5)[of this] 1(5)[of this] tn ne by (simp add: block_of_default)
  moreover have "block_of st3 rhs = None"
    using 3(5)[of rhs] 2(5)[of rhs] tn ne by (simp add: block_of_default)
  moreover have "insert temporary L - {temporary} = L" using t by auto
  moreover have "assign_move this rhs st = Inr st3" using ne 1(1) 2(1) 3(1) by (simp add: assign_move_def)
  ultimately show ?thesis using 1(3,4) 2(3,4) 3(2,3,4) by (simp add: counts_default)
qed

lemma var_image: "var ` insert n L = insert (var n) (var ` L)" "var ` (L - {n}) = var ` L - {var n}"
  "temporary \<notin> var ` L" "var n \<in> var ` L \<longleftrightarrow> n \<in> L"
  by auto

lemma exec_balanced:
  assumes b: "balanced (var ` L) st" and sc: "in_scope L x" and bx: "binds_boxed x"
  shows "\<exists>st'. exec x st = Inr st' \<and> balanced (var ` scope_after x L) st'
     \<and> allocs st' = allocs st + new_count x st \<and> frees st' = frees st + delete_count x st
     \<and> pointer_moved x st st'"
proof (cases x)
  case (Declare n)
  then show ?thesis using balanced_default[OF b, of "var n"] sc
    by (simp add: var_image counts_default)
next
  case (Bind n T v)
  then show ?thesis using balanced_from[OF b, of "var n" T v] sc bx
    by (simp add: var_image obs_from)
next
  case (CopyConstruct n m)
  then have i: "var n \<notin> var ` L" "var m \<in> var ` L" using sc by auto
  show ?thesis using balanced_copy[OF b i] bool_block[OF balanced_eb[OF b i(2)]] CopyConstruct
    by (auto simp: var_image)
next
  case (MoveConstruct n m)
  then have i: "var n \<notin> var ` L" "var m \<in> var ` L" using sc by auto
  show ?thesis using balanced_move[OF b i] MoveConstruct
    by (auto simp: var_image)
next
  case (CopyAssign n m)
  then have i: "var n \<in> var ` L" "var m \<in> var ` L" using sc by auto
  show ?thesis
  proof (cases "n = m")
    case True then show ?thesis using CopyAssign b by (simp add: assign_copy_def)
  next
    case False
    then have ne: "var n \<noteq> var m" by simp
    show ?thesis using balanced_assign_copy[OF b i var_image(3) ne] CopyAssign False
        bool_block[OF balanced_eb[OF b i(1)]] bool_block[OF balanced_eb[OF b i(2)]]
      by auto
  qed
next
  case (MoveAssign n m)
  then have i: "var n \<in> var ` L" "var m \<in> var ` L" using sc by auto
  show ?thesis
  proof (cases "n = m")
    case True then show ?thesis using MoveAssign b by (simp add: assign_move_def)
  next
    case False
    then have ne: "var n \<noteq> var m" by simp
    show ?thesis using balanced_assign_move[OF b i var_image(3) ne] MoveAssign False
        bool_block[OF balanced_eb[OF b i(1)]]
      by auto
  qed
next
  case (Swap n m)
  then have i: "var n \<in> var ` L" "var m \<in> var ` L" using sc by auto
  show ?thesis using balanced_swap[OF b i] Swap by auto
next
  case (Destroy n)
  then have i: "var n \<in> var ` L" using sc by auto
  show ?thesis using balanced_dtor[OF b i] Destroy bool_block[OF balanced_eb[OF b i]]
    by (auto simp: var_image)
qed

lemma run_balanced:
  "balanced (var ` L) st \<Longrightarrow> scoped L xs \<Longrightarrow> list_all binds_boxed xs \<Longrightarrow>
     \<exists>st'. run xs st = Inr st' \<and> balanced (var ` scope_at_end L xs) st'"
proof (induction xs arbitrary: L st)
  case Nil
  then show ?case by simp
next
  case (Cons x xs)
  from exec_balanced[OF Cons.prems(1), of x] Cons.prems(2,3) obtain st1 where
    1: "exec x st = Inr st1" "balanced (var ` scope_after x L) st1" by auto
  from Cons.IH[OF 1(2)] Cons.prems(2,3) obtain st' where
    "run xs st1 = Inr st'" "balanced (var ` scope_at_end (scope_after x L) xs) st'" by auto
  then show ?case using 1(1) by simp
qed

lemma balanced_init: "balanced {} init"
  by (simp add: balanced_def init_def)

lemma balanced_empty: "balanced {} st \<Longrightarrow> heap st = Map.empty \<and> allocs st = frees st"
  unfolding balanced_def by (auto simp: dom_def fun_eq_iff)

subsection \<open>Moves and swaps of usable wrappers\<close>

text \<open>
  For a wrapper that is empty, boxed, or bound inline to a type with a trivial move
  assignment and a trivial destructor, \<^verbatim>\<open>move\<close> copies the cell, \<^verbatim>\<open>swap\<close> exchanges what the
  two wrappers call, and the move constructor hands the callable over and leaves the source
  empty.
\<close>

lemma move_movable:
  "movable st d src \<Longrightarrow> move (deref d) src dst st =
     Inr (if d = empty_table then st else set_cell dst (cell st src) st)"
  by (cases d)
     (auto simp: movable_def get_empty_func_descriptor_def get_descriptor_def move_assign_def
        load_def slot_at_def destructor_def ptr_from_storage_def frame)

lemma usable_movable: "usable st w \<Longrightarrow> movable st (desc (objs st w)) (storage_of w)"
  by (auto simp: usable_def movable_def relocatable_def bound_to_iff split: desc_ptr.splits)

lemma movable_cong:
  "cell st' src' = cell st src \<Longrightarrow> movable st' d src' = movable st d src"
  by (simp add: movable_def split: desc_ptr.splits)

lemma swap_usable:
  assumes "usable st this" "usable st other"
  shows "\<exists>st'. swap this other st = Inr st' \<and> heap st' = heap st \<and> allocs st' = allocs st
     \<and> frees st' = frees st
     \<and> (\<forall>w. desc (objs st' w) = (if w = this then desc (objs st other) else if w = other then desc (objs st this) else desc (objs st w)))
     \<and> (\<forall>w. w \<noteq> this \<longrightarrow> w \<noteq> other \<longrightarrow> cell st' (storage_of w) = cell st (storage_of w))
     \<and> (desc (objs st other) \<noteq> empty_table \<longrightarrow> cell st' (storage_of this) = cell st (storage_of other))
     \<and> (desc (objs st this) \<noteq> empty_table \<longrightarrow> cell st' (storage_of other) = cell st (storage_of this))"
proof -
  let ?dt = "desc (objs st this)" and ?do = "desc (objs st other)"
  let ?st0 = "st\<lparr>tmp_cell := Indeterminate\<rparr>"
  let ?st1 = "if ?do = empty_table then ?st0 else set_cell tmp (cell ?st0 (storage_of other)) ?st0"
  let ?st2 = "if ?dt = empty_table then ?st1 else set_cell (storage_of other) (cell ?st1 (storage_of this)) ?st1"
  let ?st3 = "if ?do = empty_table then ?st2 else set_cell (storage_of this) (cell ?st2 tmp) ?st2"
  have d0: "desc (objs ?st0 w) = desc (objs st w)" for w by simp
  have d1: "desc (objs ?st1 w) = desc (objs st w)" for w by (simp add: frame)
  have d2: "desc (objs ?st2 w) = desc (objs st w)" for w by (simp add: frame)
  have d3: "desc (objs ?st3 w) = desc (objs st w)" for w by (simp add: frame)
  have m1: "movable ?st0 ?do (storage_of other)"
    using usable_movable[OF assms(2)] by (simp add: movable_cong[of ?st0 _ st] frame)
  have m2: "movable ?st1 ?dt (storage_of this)"
    using usable_movable[OF assms(1)] by (simp add: movable_cong[of ?st1 _ st] frame)
  have m3: "movable ?st2 ?do tmp"
    using usable_movable[OF assms(2)] by (auto simp: movable_def frame split: desc_ptr.splits)
  have 1: "move (deref (desc (objs ?st0 other))) (storage_of other) tmp ?st0 = Inr ?st1"
    unfolding d0 using move_movable[OF m1] by simp
  have 2: "move (deref (desc (objs ?st1 this))) (storage_of this) (storage_of other) ?st1 = Inr ?st2"
    unfolding d1 using move_movable[OF m2] by simp
  have 3: "move (deref (desc (objs ?st2 other))) tmp (storage_of this) ?st2 = Inr ?st3"
    unfolding d2 using move_movable[OF m3] by simp
  let ?st' = "set_desc other (desc (objs ?st3 this)) (set_desc this (desc (objs ?st3 other)) ?st3)"
  have "swap this other st = Inr ?st'"
    unfolding swap_def Let_def 1 and_then.simps 2 3 ..
  moreover have "heap ?st' = heap st" "allocs ?st' = allocs st" "frees ?st' = frees st"
    by (simp_all add: frame)
  moreover have "\<forall>w. desc (objs ?st' w) = (if w = this then desc (objs st other) else if w = other then desc (objs st this) else desc (objs st w))"
    unfolding d3 by (auto simp: frame)
  moreover have "\<forall>w. w \<noteq> this \<longrightarrow> w \<noteq> other \<longrightarrow> cell ?st' (storage_of w) = cell st (storage_of w)"
    by (simp add: frame)
  moreover have "?do \<noteq> empty_table \<longrightarrow> cell ?st' (storage_of this) = cell st (storage_of other)"
    by (simp add: frame)
  moreover have "?dt \<noteq> empty_table \<longrightarrow> cell ?st' (storage_of other) = cell st (storage_of this)"
    by (simp add: frame)
  ultimately show ?thesis by blast
qed

lemma call_cong:
  "desc (objs st' w') = desc (objs st w) \<Longrightarrow>
   (desc (objs st w) \<noteq> empty_table \<Longrightarrow> cell st' (storage_of w') = cell st (storage_of w)) \<Longrightarrow>
   heap st' = heap st \<Longrightarrow> operator_call w' args st' = operator_call w args st"
  by (cases "desc (objs st w)")
     (auto simp: operator_call_def get_empty_func_descriptor_def get_descriptor_def load_def
        slot_at_def ptr_from_storage_def split: slot.splits)

lemma bound_to_transfer:
  "desc (objs st' w') = desc (objs st w) \<Longrightarrow>
   (desc (objs st w) \<noteq> empty_table \<Longrightarrow> cell st' (storage_of w') = cell st (storage_of w)) \<Longrightarrow>
   heap st' = heap st \<Longrightarrow> bound_to st' w' T v = bound_to st w T v"
  by (cases "desc (objs st w)") (auto simp: bound_to_iff)

lemma usable_transfer:
  "desc (objs st' w') = desc (objs st w) \<Longrightarrow>
   (desc (objs st w) \<noteq> empty_table \<Longrightarrow> cell st' (storage_of w') = cell st (storage_of w)) \<Longrightarrow>
   heap st' = heap st \<Longrightarrow> usable st' w' = usable st w"
  using bound_to_transfer[of st' w' st w]
  by (cases "desc (objs st w)") (auto simp: usable_def)

lemma bound_call: "bound_to st w T v \<Longrightarrow> operator_call w args st = Inr (v args)"
  by (auto simp: bound_to_def operator_call_def get_descriptor_def)

lemma swap_exchanges:
  assumes "usable st this" "usable st other"
  shows "\<exists>st'. swap this other st = Inr st' \<and> heap st' = heap st \<and> allocs st' = allocs st
     \<and> frees st' = frees st
     \<and> (\<forall>args. operator_call this args st' = operator_call other args st)
     \<and> (\<forall>args. operator_call other args st' = operator_call this args st)
     \<and> operator_bool this st' = operator_bool other st
     \<and> operator_bool other st' = operator_bool this st
     \<and> usable st' this \<and> usable st' other"
proof -
  from swap_usable[OF assms] obtain st' where s: "swap this other st = Inr st'"
    "heap st' = heap st" "allocs st' = allocs st" "frees st' = frees st"
    "\<And>w. desc (objs st' w) = (if w = this then desc (objs st other) else if w = other then desc (objs st this) else desc (objs st w))"
    "\<And>w. w \<noteq> this \<Longrightarrow> w \<noteq> other \<Longrightarrow> cell st' (storage_of w) = cell st (storage_of w)"
    "desc (objs st other) \<noteq> empty_table \<Longrightarrow> cell st' (storage_of this) = cell st (storage_of other)"
    "desc (objs st this) \<noteq> empty_table \<Longrightarrow> cell st' (storage_of other) = cell st (storage_of this)"
    by blast
  have a: "desc (objs st' this) = desc (objs st other)" "desc (objs st' other) = desc (objs st this)"
    using s(5) by auto
  have "operator_call this args st' = operator_call other args st" for args
    using a(1) s(7) s(2) by (rule call_cong)
  moreover have "operator_call other args st' = operator_call this args st" for args
    using a(2) s(8) s(2) by (rule call_cong)
  moreover have "usable st' this = usable st other" using a(1) s(7) s(2) by (rule usable_transfer)
  moreover have "usable st' other = usable st this" using a(2) s(8) s(2) by (rule usable_transfer)
  ultimately show ?thesis using s(1-4) a assms by (auto simp: operator_bool_def)
qed

lemma function_move_usable:
  assumes u: "usable st other" and ne: "this \<noteq> other"
  shows "\<exists>st'. function_move this other st = Inr st' \<and> heap st' = heap st \<and> allocs st' = allocs st
     \<and> frees st' = frees st
     \<and> (\<forall>args. operator_call this args st' = operator_call other args st)
     \<and> operator_bool this st' = operator_bool other st
     \<and> \<not> operator_bool other st'
     \<and> (\<forall>args. operator_call other args st' = Inl bad_function_call)
     \<and> function_dtor other st' = Inr st'
     \<and> usable st' this"
proof -
  let ?d = "desc (objs st other)"
  let ?st1 = "fresh this ?d st"
  let ?st2 = "if ?d = empty_table then ?st1 else set_cell (storage_of this) (cell ?st1 (storage_of other)) ?st1"
  let ?st' = "set_desc other empty_table ?st2"
  have d1: "desc (objs ?st1 this) = ?d" by (simp add: frame)
  have m: "movable ?st1 ?d (storage_of other)"
    using usable_movable[OF u] ne by (simp add: movable_cong[of ?st1 _ st] frame)
  have 1: "move (deref (desc (objs ?st1 this))) (storage_of other) (storage_of this) ?st1 = Inr ?st2"
    unfolding d1 using move_movable[OF m] by simp
  have r: "function_move this other st = Inr ?st'"
    unfolding function_move_def Let_def 1 and_then.simps ..
  have a: "desc (objs ?st' this) = desc (objs st other)" using ne by (simp add: frame)
  have c: "?d \<noteq> empty_table \<Longrightarrow> cell ?st' (storage_of this) = cell st (storage_of other)"
    using ne by (simp add: frame)
  have h: "heap ?st' = heap st" by (simp add: frame)
  have e: "desc (objs ?st' other) = empty_table" by (simp add: frame)
  have "operator_call this args ?st' = operator_call other args st" for args
    using a c h by (rule call_cong)
  moreover have "usable ?st' this = usable st other" using a c h by (rule usable_transfer)
  moreover have "operator_call other args ?st' = Inl bad_function_call" for args
    using e by (simp add: operator_call_def get_empty_func_descriptor_def)
  moreover have "function_dtor other ?st' = Inr ?st'"
    using e by (simp add: function_dtor_def get_empty_func_descriptor_def)
  moreover have "allocs ?st' = allocs st" "frees ?st' = frees st" by (simp_all add: frame)
  ultimately show ?thesis using r a e h u by (auto simp: operator_bool_def)
qed

subsection \<open>The inline branch of \<^verbatim>\<open>move\<close> on other types\<close>

text \<open>
  The inline branch runs the destructor through \<^verbatim>\<open>ptr_from_storage<T>(src)\<close>, which reads
  the bytes of the inline object as an address, and it assigns to the destination where the
  callers hand it storage without an object. With a destructor that is not trivial the move
  is undefined for every source and destination; with an assignment that is not trivial it
  is undefined whenever the destination holds no object of the type.
\<close>

lemma inline_move_needs_trivial_destructor:
  "fits_small T \<Longrightarrow> \<not> is_trivially_destructible T \<Longrightarrow>
     move (get_descriptor T) src dst st = Inl undefined_behaviour"
  by (auto simp: get_descriptor_def move_assign_def load_def slot_at_def destructor_def
        ptr_from_storage_def frame split: option.splits slot.splits)

lemma inline_move_needs_object_or_trivial_assignment:
  "fits_small T \<Longrightarrow> \<not> is_trivially_move_assignable T \<Longrightarrow> \<not> holds_object T (cell st dst) \<Longrightarrow>
     move (get_descriptor T) src dst st = Inl undefined_behaviour"
  by (auto simp: get_descriptor_def move_assign_def load_def slot_at_def
        split: option.splits slot.splits)

subsection \<open>Tables never change a table pointer\<close>

lemma and_then_Inr: "and_then m f = Inr y \<longleftrightarrow> (\<exists>x. m = Inr x \<and> f x = Inr y)"
  by (cases m) auto

lemma move_desc:
  "move (deref d) src dst st = Inr st' \<Longrightarrow> desc (objs st' w) = desc (objs st w)"
  by (cases d)
     (auto simp: get_empty_func_descriptor_def get_descriptor_def move_assign_def destructor_def
        set_slot_at_def frame
        and_then_Inr split: if_splits sum.splits option.splits pointer.splits)

lemma destroy_desc:
  "destroy (deref d) src st = Inr st' \<Longrightarrow> desc (objs st' w) = desc (objs st w)"
  by (cases d)
     (auto simp: get_empty_func_descriptor_def get_descriptor_def destructor_def delete_def
        set_slot_at_def frame
        split: if_splits sum.splits option.splits pointer.splits)

lemma swap_desc:
  assumes "swap this other st = Inr st'"
  shows "desc (objs st' other) = desc (objs st this)"
proof -
  let ?st0 = "st\<lparr>tmp_cell := Indeterminate\<rparr>"
  from assms obtain st1 st2 st3 where
    1: "move (deref (desc (objs ?st0 other))) (storage_of other) tmp ?st0 = Inr st1" and
    2: "move (deref (desc (objs st1 this))) (storage_of this) (storage_of other) st1 = Inr st2" and
    3: "move (deref (desc (objs st2 other))) tmp (storage_of this) st2 = Inr st3" and
    4: "st' = set_desc other (desc (objs st3 this)) (set_desc this (desc (objs st3 other)) st3)"
    by (auto simp: swap_def Let_def and_then_Inr)
  have "desc (objs st3 this) = desc (objs st this)"
    using move_desc[OF 1, of this] move_desc[OF 2, of this] move_desc[OF 3, of this] by simp
  then show ?thesis using 4 by (simp add: frame)
qed

lemma assign_move_empties:
  assumes "assign_move this rhs st = Inr st'" "this \<noteq> rhs" "rhs \<noteq> temporary"
  shows "desc (objs st' rhs) = empty_table"
proof -
  from assms(1,2) obtain st1 st2 where
    1: "swap this rhs st = Inr st1" and
    2: "swap temporary rhs (function_default temporary st1) = Inr st2" and
    3: "function_dtor temporary st2 = Inr st'"
    by (auto simp: assign_move_def and_then_Inr)
  have "desc (objs st2 rhs) = desc (objs (function_default temporary st1) temporary)"
    using 2 by (rule swap_desc)
  then have "desc (objs st2 rhs) = empty_table" by (simp add: function_default_def frame)
  then show ?thesis using destroy_desc[OF 3[unfolded function_dtor_def], of rhs] by simp
qed

subsection \<open>Bound wrappers: target, copy and mutation\<close>

lemma target_bound:
  "bound_to st w T v \<Longrightarrow> target T w st = (if fits_small T then in_cell (storage_of w) else ptr_from_storage st (storage_of w))"
  by (simp add: bound_to_def target_def get_descriptor_def)

lemma target_not_null:
  "bound_to st w T v \<Longrightarrow> target T w st \<noteq> nullptr"
  by (auto simp: bound_to_iff target_def get_descriptor_def ptr_from_storage_def)

lemma load_target:
  "bound_to st w T v \<Longrightarrow> load T (target T w st) st = Inr v"
  by (simp add: bound_to_def target_def)

lemma bound_from: "bound_to (function_from w T v st) w T v"
  by (simp add: bound_to_iff function_from_def Let_def construct_at_def new_def frame)

lemma copy_bound:
  assumes b: "bound_to st other T v" and ne: "this \<noteq> other" and h: "dom (heap st) \<subseteq> {..<allocs st}"
  shows "\<exists>st'. function_copy this other st = Inr st'
     \<and> desc (objs st' this) = table_of T \<and> desc (objs st' other) = table_of T
     \<and> cell st' (storage_of other) = cell st (storage_of other)
     \<and> (if fits_small T
         then cell st' (storage_of this) = Object T v \<and> heap st' = heap st \<and> allocs st' = allocs st
         else cell st' (storage_of this) = Pointer (allocs st) \<and>
              heap st' = (heap st)(allocs st \<mapsto> Object T v) \<and> allocs st' = allocs st + 1 \<and>
              cell st (storage_of other) \<noteq> Pointer (allocs st))
     \<and> frees st' = frees st"
proof (cases "fits_small T")
  case True
  then have c: "desc (objs st other) = table_of T" "cell st (storage_of other) = Object T v"
    using b by (auto simp: bound_to_iff)
  let ?st1 = "fresh this (table_of T) st"
  have l: "load T (in_cell (storage_of other)) ?st1 = Inr v"
    using c ne by (simp add: load_def slot_at_def frame)
  show ?thesis
    using True c ne l
    by (simp add: function_copy_def Let_def frame get_descriptor_def construct_at_def)
next
  case False
  then obtain a where c: "desc (objs st other) = table_of T" "cell st (storage_of other) = Pointer a"
      "heap st a = Some (Object T v)"
    using b by (auto simp: bound_to_iff)
  have "a \<in> dom (heap st)" using c(3) by auto
  then have fr: "a \<noteq> allocs st" using h by auto
  let ?st1 = "fresh this (table_of T) st"
  have l: "load T (ptr_from_storage ?st1 (storage_of other)) ?st1 = Inr v"
    by (rule load_boxed[where a = a]) (use c ne in \<open>auto simp: frame\<close>)
  show ?thesis
    using False c ne l fr
    by (simp add: function_copy_def Let_def frame get_descriptor_def new_def)
qed

lemma bound_mutate_self:
  "bound_to st w T v \<Longrightarrow> bound_to (mutate T w v' st) w T v'"
  by (auto simp: bound_to_iff mutate_def target_def get_descriptor_def ptr_from_storage_def
      set_slot_at_def frame)

lemma bound_mutate_other:
  assumes "bound_to st w T v" "bound_to st u U x" "target T w st \<noteq> target U u st"
  shows "bound_to (mutate T w v' st) u U x"
proof -
  have u: "target U u st = (if fits_small U then in_cell (storage_of u) else ptr_from_storage st (storage_of u))"
    using assms(2) by (rule target_bound)
  have w: "target T w st = (if fits_small T then in_cell (storage_of w) else ptr_from_storage st (storage_of w))"
    using assms(1) by (rule target_bound)
  show ?thesis
    using assms u w
    by (auto simp: bound_to_iff mutate_def ptr_from_storage_def set_slot_at_def frame
        split: if_splits) (metis)
qed

section \<open>The claims\<close>

text \<open>The equations that evaluate the model on the example inputs.\<close>

lemmas example_defs =
  ex_small_def ex_large_def ex_tracked_def ex_tracked2_def init_def
  small_func_def large_func_def tracked_func_def
  fits_small_def sizeof_ptr_def alignof_ptr_def
  function_from_def function_move_def function_copy_def function_default_def function_dtor_def
  operator_call_def operator_bool_def target_def swap_def assign_copy_def assign_move_def
  fresh_def construct_at_def new_def set_cell_def set_desc_def cell_def
  get_descriptor_def get_empty_func_descriptor_def
  move_assign_def destructor_def delete_def load_def slot_at_def set_slot_at_def
  ptr_from_storage_def Let_def

text \<open>
  Claim C1. Calling a wrapper that holds nothing raises \<open>bad_function_call\<close>, whatever
  the arguments: the \<^verbatim>\<open>invoke\<close> of the empty table raises it for every cell, argument and
  state; a default-constructed wrapper raises it; so does every wrapper whose
  \<^verbatim>\<open>operator bool\<close> is false; and after a move construction or a move assignment that
  returns, the source is such a wrapper. The result is the error, never a value of the
  result type.
\<close>

theorem C1_empty_call_raises:
  "invoke get_empty_func_descriptor src args st = Inl bad_function_call
   \<and> operator_call this args (function_default this st) = Inl bad_function_call
   \<and> (\<not> operator_bool w st \<longrightarrow> operator_call w args st = Inl bad_function_call)
   \<and> (function_move this other st = Inr st' \<longrightarrow>
        \<not> operator_bool other st' \<and> operator_call other args st' = Inl bad_function_call)
   \<and> (assign_move this (var m) st = Inr st' \<and> this \<noteq> var m \<longrightarrow>
        \<not> operator_bool (var m) st' \<and> operator_call (var m) args st' = Inl bad_function_call)"
proof (intro conjI impI)
  show "invoke get_empty_func_descriptor src args st = Inl bad_function_call"
    by (simp add: get_empty_func_descriptor_def)
  show "operator_call this args (function_default this st) = Inl bad_function_call"
    by (simp add: operator_call_def function_default_def fresh_def get_empty_func_descriptor_def)
  show "operator_call w args st = Inl bad_function_call" if "\<not> operator_bool w st"
    using that by (simp add: operator_call_def operator_bool_def get_empty_func_descriptor_def)
  {
    assume m: "function_move this other st = Inr st'"
    then obtain st2 where "st' = set_desc other empty_table st2"
      by (auto simp: function_move_def Let_def and_then_Inr)
    then have e: "desc (objs st' other) = empty_table" by (simp add: desc_set_desc)
    show "\<not> operator_bool other st'" using e by (simp add: operator_bool_def)
    show "operator_call other args st' = Inl bad_function_call"
      using e by (simp add: operator_call_def get_empty_func_descriptor_def)
  }
  {
    assume "assign_move this (var m) st = Inr st' \<and> this \<noteq> var m"
    then have e: "desc (objs st' (var m)) = empty_table"
      using assign_move_empties[of this "var m" st st'] by simp
    show "\<not> operator_bool (var m) st'" using e by (simp add: operator_bool_def)
    show "operator_call (var m) args st' = Inl bad_function_call"
      using e by (simp add: operator_call_def get_empty_func_descriptor_def)
  }
qed

theorem C1_empty_call_raises_witness:
  "\<not> operator_bool (var 0) (init :: (unit, int) state)
   \<and> operator_call (var 0) () (init :: (unit, int) state) = Inl bad_function_call
   \<and> function_move (var 1) (var 0) ex_small = Inr (projr (function_move (var 1) (var 0) ex_small))
   \<and> \<not> operator_bool (var 0) (projr (function_move (var 1) (var 0) ex_small))
   \<and> operator_call (var 0) () (projr (function_move (var 1) (var 0) ex_small)) = Inl bad_function_call
   \<and> assign_move (var 1) (var 0) ex_small = Inr (projr (assign_move (var 1) (var 0) ex_small))
   \<and> var 1 \<noteq> var 0
   \<and> operator_call (var 1) () (projr (assign_move (var 1) (var 0) ex_small)) = Inr 42
   \<and> operator_call (var 0) () (projr (assign_move (var 1) (var 0) ex_small)) = Inl bad_function_call"
proof -
  have b: "\<not> operator_bool (var 0) (init :: (unit, int) state)"
    by (simp add: operator_bool_def init_def)
  have m: "function_move (var 1) (var 0) ex_small = Inr (projr (function_move (var 1) (var 0) ex_small))"
    by (simp add: example_defs)
  have a: "assign_move (var 1) (var 0) ex_small = Inr (projr (assign_move (var 1) (var 0) ex_small))"
    "operator_call (var 1) () (projr (assign_move (var 1) (var 0) ex_small)) = Inr 42"
    by (simp_all add: example_defs)
  show ?thesis
    using b m a
      C1_empty_call_raises[where args = "()" and st = "init :: (unit, int) state" and w = "var 0"]
      C1_empty_call_raises[where args = "()" and st = ex_small and this = "var 1" and other = "var 0"
        and st' = "projr (function_move (var 1) (var 0) ex_small)"]
      C1_empty_call_raises[where args = "()" and st = ex_small and this = "var 1" and m = 0
        and st' = "projr (assign_move (var 1) (var 0) ex_small)"]
    by simp
qed

text \<open>
  Claim C2, at an input where the code does not do what the claim says. Two wrappers are
  bound to the four-byte registering type, which is stored inline; each can be called.
  \<^verbatim>\<open>swap\<close> runs the three moves of the claim, and the first of them, from the right
  wrapper into the scratch cell, is already undefined: the inline branch of \<^verbatim>\<open>move\<close>
  assigns to the scratch cell, in which no object was ever constructed, and runs the
  destructor on the address it reads out of the source object's bytes. For wrappers that
  are empty, boxed or bound to a trivially relocatable inline type the exchange is lemma
  \<open>swap_exchanges\<close>.
\<close>

theorem C2_swap_of_tracked_is_undefined:
  "operator_call (var 0) () ex_tracked2 = Inr 1
   \<and> operator_call (var 1) () ex_tracked2 = Inr 2
   \<and> fits_small tracked_func
   \<and> swap (var 0) (var 1) ex_tracked2 = Inl undefined_behaviour"
  by (simp add: example_defs)

text \<open>
  Claim C3. \<open>fits_small\<close> is the conjunction of the four conditions, and it depends on the
  type alone. Constructing a wrapper from a value of type \<^verbatim>\<open>T\<close> leaves the object itself
  in the cell and the heap untouched when \<^verbatim>\<open>T\<close> fits; otherwise it allocates one block
  holding the object and leaves the block's address in the cell. What the state held
  before plays no part in the choice.
\<close>

theorem C3_inline_iff_fits_small:
  "(fits_small T \<longleftrightarrow>
      sizeof T < sizeof_ptr \<and> alignof T < alignof_ptr \<and>
      is_nothrow_move_assignable T \<and> is_nothrow_move_constructible T)
   \<and> desc (objs (function_from this T v st) this) = table_of T
   \<and> cell (function_from this T v st) (storage_of this) =
       (if fits_small T then Object T v else Pointer (allocs st))
   \<and> heap (function_from this T v st) =
       (if fits_small T then heap st else (heap st)(allocs st \<mapsto> Object T v))
   \<and> allocs (function_from this T v st) = (if fits_small T then allocs st else allocs st + 1)
   \<and> frees (function_from this T v st) = frees st"
  by (simp add: fits_small_def function_from_def Let_def construct_at_def new_def frame)

theorem C3_inline_iff_fits_small_witness:
  "fits_small small_func \<and> \<not> fits_small large_func
   \<and> cell ex_small (storage_of (var 0)) = Object small_func (\<lambda>_. 42) \<and> allocs ex_small = 0
   \<and> cell ex_large (storage_of (var 0)) = Pointer 0 \<and> allocs ex_large = 1
   \<and> heap ex_large 0 = Some (Object large_func (\<lambda>x. 6 + x))"
proof -
  have s: "fits_small small_func" and l: "\<not> fits_small large_func"
    by (simp_all add: fits_small_def small_func_def large_func_def sizeof_ptr_def alignof_ptr_def)
  have i: "allocs (init :: (unit, int) state) = 0" "allocs (init :: (int, int) state) = 0"
    by (simp_all add: init_def)
  show ?thesis
    using s l i
      C3_inline_iff_fits_small[of small_func "var 0" "\<lambda>_::unit. 42::int" init]
      C3_inline_iff_fits_small[of large_func "var 0" "\<lambda>x::int. 6 + x" init]
    by (simp add: ex_small_def ex_large_def)
qed

text \<open>
  Claim C4, at an input where the code does not do what the claim says. A wrapper bound to
  the four-byte registering type can be called, the type is stored inline, and move
  construction from the wrapper is undefined: the new wrapper's storage holds no object
  for the move assignment to assign to, and the destructor runs on the address read out
  of the source object's bytes. For a source that is empty, boxed or bound to a trivially
  relocatable inline type, move construction does what the claim says (lemma
  \<open>function_move_usable\<close>).
\<close>

theorem C4_move_of_tracked_is_undefined:
  "operator_call (var 0) () ex_tracked = Inr 1
   \<and> fits_small tracked_func
   \<and> function_move (var 1) (var 0) ex_tracked = Inl undefined_behaviour"
  by (simp add: example_defs)

text \<open>
  Claim C5. \<^verbatim>\<open>target<T>()\<close> is null unless the wrapper's table pointer is the address of
  the table of \<^verbatim>\<open>T\<close>. On a wrapper bound to an object of type \<^verbatim>\<open>T'\<close> it is non-null
  exactly for \<^verbatim>\<open>T = T'\<close>, it then points to the held object, and it stays the same pointer
  in every state in which the wrapper itself is unchanged. Right after binding it is the
  wrapper's own cell for a type that fits and the new block otherwise, and it is null for
  every other type.
\<close>

theorem C5_target_matches_exact_type:
  "(target T w st \<noteq> nullptr \<longrightarrow> desc (objs st w) = table_of T)
   \<and> (bound_to st w T' v \<longrightarrow>
        (target T w st \<noteq> nullptr \<longleftrightarrow> T = T') \<and>
        load T' (target T' w st) st = Inr v \<and>
        (\<forall>st'. objs st' w = objs st w \<longrightarrow> target T' w st' = target T' w st))
   \<and> bound_to (function_from w T v st) w T v
   \<and> target T w (function_from w T v st) =
        (if fits_small T then in_cell (storage_of w) else on_heap (allocs st))
   \<and> load T (target T w (function_from w T v st)) (function_from w T v st) = Inr v
   \<and> (U \<noteq> T \<longrightarrow> target U w (function_from w T v st) = nullptr)"
proof (intro conjI impI allI)
  show "desc (objs st w) = table_of T" if "target T w st \<noteq> nullptr"
    using that by (auto simp: target_def split: if_splits)
  show "(target T w st \<noteq> nullptr) = (T = T')" if "bound_to st w T' v"
    using target_not_null[OF that] that by (auto simp: target_def bound_to_def)
  show "load T' (target T' w st) st = Inr v" if "bound_to st w T' v"
    using that by (rule load_target)
  show "target T' w st' = target T' w st" if "bound_to st w T' v" "objs st' w = objs st w" for st'
    using that(2) by (simp add: target_def get_descriptor_def ptr_from_storage_def cell_def)
  show b: "bound_to (function_from w T v st) w T v" by (rule bound_from)
  show "target T w (function_from w T v st) =
        (if fits_small T then in_cell (storage_of w) else on_heap (allocs st))"
    by (simp add: target_def function_from_def Let_def construct_at_def new_def frame
        get_descriptor_def ptr_from_storage_def)
  show "load T (target T w (function_from w T v st)) (function_from w T v st) = Inr v"
    using b by (rule load_target)
  show "target U w (function_from w T v st) = nullptr" if "U \<noteq> T"
    using that b by (auto simp: target_def bound_to_def)
qed

theorem C5_target_matches_exact_type_witness:
  "bound_to ex_large (var 0) large_func (\<lambda>x. 6 + x)
   \<and> target large_func (var 0) ex_large = on_heap 0
   \<and> target large_func (var 0) ex_large \<noteq> nullptr
   \<and> load large_func (target large_func (var 0) ex_large) ex_large = Inr (\<lambda>x. 6 + x)
   \<and> target small_func (var 0) ex_large = nullptr
   \<and> target small_func (var 0) ex_small = in_cell (storage_of (var 0))
   \<and> target large_func (var 0) ex_small = nullptr"
proof -
  have d: "small_func \<noteq> large_func" "large_func \<noteq> small_func"
    by (simp_all add: small_func_def large_func_def)
  have f: "fits_small small_func" "\<not> fits_small large_func"
    by (simp_all add: fits_small_def small_func_def large_func_def sizeof_ptr_def alignof_ptr_def)
  have a: "allocs (init :: (int, int) state) = 0" by (simp add: init_def)
  have b: "bound_to ex_large (var 0) large_func (\<lambda>x. 6 + x)"
    using C5_target_matches_exact_type[where T = large_func and w = "var 0" and v = "\<lambda>x::int. 6 + x"
        and st = "init :: (int, int) state"]
    by (simp add: ex_large_def)
  show ?thesis
    using d f a b
      C5_target_matches_exact_type[where T = large_func and w = "var 0" and v = "\<lambda>x::int. 6 + x"
        and st = "init :: (int, int) state" and U = small_func]
      C5_target_matches_exact_type[where T = small_func and w = "var 0" and v = "\<lambda>_::unit. 42::int"
        and st = "init :: (unit, int) state" and U = large_func]
      C5_target_matches_exact_type[where T = large_func and T' = large_func and w = "var 0"
        and v = "\<lambda>x::int. 6 + x" and st = ex_large]
    by (simp add: ex_large_def ex_small_def)
qed

text \<open>
  Claim C6, at an input where the code does not do what the claim says. The source cell
  holds a live object of the four-byte registering type, stored inline, and the
  destination is the scratch cell, uninitialised. The table's \<^verbatim>\<open>move\<close> is undefined
  there, in both of its statements: it does not construct in the destination but runs the
  move assignment on it, and it runs the destructor not on the object in the source cell
  (which would be fine, last conjunct) but on the pointer \<^verbatim>\<open>ptr_from_storage\<close> makes of the
  source cell's bytes.
\<close>

theorem C6_inline_move_assigns_and_misses_source:
  "fits_small tracked_func
   \<and> cell ex_tracked (storage_of (var 0)) = Object tracked_func (\<lambda>_. 1)
   \<and> cell ex_tracked tmp = Indeterminate
   \<and> move (get_descriptor tracked_func) (storage_of (var 0)) tmp ex_tracked = Inl undefined_behaviour
   \<and> move_assign tracked_func tmp (storage_of (var 0)) ex_tracked = Inl undefined_behaviour
   \<and> ptr_from_storage ex_tracked (storage_of (var 0)) = wild
   \<and> destructor tracked_func (ptr_from_storage ex_tracked (storage_of (var 0))) ex_tracked
       = Inl undefined_behaviour
   \<and> destructor tracked_func (in_cell (storage_of (var 0))) ex_tracked
       = Inr (set_cell (storage_of (var 0)) Indeterminate ex_tracked)"
  by (simp add: example_defs)

text \<open>
  Claim C7. Assigning a wrapper to itself, through the copy assignment or through the
  move assignment, changes nothing at all: the state after is the state before, so no
  destructor and no \<^verbatim>\<open>delete\<close> has run and a call gives what it gave before.
\<close>

theorem C7_self_assignment_guarded:
  "assign_copy w w st = Inr st \<and> assign_move w w st = Inr st
   \<and> operator_call w args (projr (assign_copy w w st)) = operator_call w args st
   \<and> operator_call w args (projr (assign_move w w st)) = operator_call w args st"
  by (simp add: assign_copy_def assign_move_def)

theorem C7_self_assignment_guarded_witness:
  "assign_copy (var 0) (var 0) ex_large = Inr ex_large
   \<and> assign_move (var 0) (var 0) ex_large = Inr ex_large
   \<and> operator_call (var 0) 5 (projr (assign_move (var 0) (var 0) ex_large)) = Inr 11"
proof -
  have "operator_call (var 0) 5 ex_large = Inr 11" by (simp add: example_defs)
  then show ?thesis using C7_self_assignment_guarded[of "var 0" ex_large 5] by simp
qed

text \<open>
  Claim C8. In a state where the wrappers in scope are empty or bound in boxed mode and
  own their blocks, every statement that is in scope and binds no inline type returns,
  keeps that ownership, evaluates \<^verbatim>\<open>new\<close> exactly \<open>new_count\<close> times (once for a
  construction from a callable and for a copy of a bound wrapper, never for a move or a
  swap) and \<^verbatim>\<open>delete\<close> exactly \<open>delete_count\<close> times (once when a bound wrapper is
  destroyed or assigned over), and a move hands the source's block to the target. So
  every well-scoped program on boxed types runs to its end without undefined behaviour,
  the blocks allocated at the end are those owned by the wrappers still in scope, one
  each, the count of \<^verbatim>\<open>new\<close> is the count of \<^verbatim>\<open>delete\<close> plus the number of those blocks,
  and when no wrapper is left in scope the heap is empty and the two counts agree.
\<close>

theorem C8_boxed_allocations_balance:
  "(balanced (var ` L) st \<and> in_scope L (x :: ('a, 'r) stmt) \<and> binds_boxed x \<longrightarrow>
      (\<exists>st'. exec x st = Inr st'
         \<and> balanced (var ` scope_after x L) st'
         \<and> allocs st' = allocs st + new_count x st
         \<and> frees st' = frees st + delete_count x st
         \<and> pointer_moved x st st'))
   \<and> (scoped {} (xs :: ('a, 'r) stmt list) \<and> list_all binds_boxed xs \<longrightarrow>
      (\<exists>st'. run xs init = Inr st'
         \<and> balanced (var ` scope_at_end {} xs) st'
         \<and> allocs st' = frees st' + card (dom (heap st'))
         \<and> (scope_at_end {} xs = {} \<longrightarrow> heap st' = Map.empty \<and> allocs st' = frees st')))"
proof (intro conjI impI)
  assume "balanced (var ` L) st \<and> in_scope L x \<and> binds_boxed x"
  then show "\<exists>st'. exec x st = Inr st'
         \<and> balanced (var ` scope_after x L) st'
         \<and> allocs st' = allocs st + new_count x st
         \<and> frees st' = frees st + delete_count x st
         \<and> pointer_moved x st st'"
    using exec_balanced[of L st x] by blast
next
  assume a: "scoped {} xs \<and> list_all binds_boxed xs"
  have "balanced (var ` {}) (init :: ('a, 'r) state)" using balanced_init by simp
  from run_balanced[OF this, of xs] a obtain st' where
    s: "run xs init = Inr st'" "balanced (var ` scope_at_end {} xs) st'" by blast
  have "scope_at_end {} xs = {} \<longrightarrow> heap st' = Map.empty \<and> allocs st' = frees st'"
    using balanced_empty[of st'] s(2) by auto
  then show "\<exists>st'. run xs init = Inr st'
         \<and> balanced (var ` scope_at_end {} xs) st'
         \<and> allocs st' = frees st' + card (dom (heap st'))
         \<and> (scope_at_end {} xs = {} \<longrightarrow> heap st' = Map.empty \<and> allocs st' = frees st')"
    using s balanced_count[OF s(2)] by blast
qed

theorem C8_boxed_allocations_balance_witness:
  "balanced (var ` {}) (init :: (int, int) state)
   \<and> in_scope {} (Bind 0 large_func (\<lambda>x. 6 + x) :: (int, int) stmt)
   \<and> binds_boxed (Bind 0 large_func (\<lambda>x. 6 + x) :: (int, int) stmt)
   \<and> (\<exists>st'. exec (Bind 0 large_func (\<lambda>x. 6 + x)) (init :: (int, int) state) = Inr st'
         \<and> allocs st' = 1 \<and> frees st' = 0)
   \<and> scoped {} ex_program \<and> list_all binds_boxed ex_program \<and> scope_at_end {} ex_program = {}
   \<and> (\<exists>st'. run ex_program init = Inr st' \<and> heap st' = Map.empty \<and> allocs st' = frees st')"
proof -
  have b: "balanced (var ` {}) (init :: (int, int) state)" using balanced_init by simp
  have i: "in_scope {} (Bind 0 large_func (\<lambda>x. 6 + x) :: (int, int) stmt)"
    "binds_boxed (Bind 0 large_func (\<lambda>x. 6 + x) :: (int, int) stmt)"
    by (simp_all add: example_defs)
  have z: "allocs (init :: (int, int) state) = 0" "frees (init :: (int, int) state) = 0"
    by (simp_all add: init_def)
  have p: "scoped {} ex_program \<and> list_all binds_boxed ex_program \<and> scope_at_end {} ex_program = {}"
    by (auto simp add: ex_program_def example_defs)
  show ?thesis
    using b i z p
      C8_boxed_allocations_balance[where L = "{}" and st = "init :: (int, int) state"
        and x = "Bind 0 large_func (\<lambda>x. 6 + x)" and xs = ex_program]
    by auto
qed

text \<open>
  Claim C9. Copy construction from a wrapper bound to an object of type \<^verbatim>\<open>T\<close> returns and
  leaves both wrappers bound to objects of type \<^verbatim>\<open>T\<close> that compute the same results as the
  original did; the two objects are different objects (one more block for a boxed type),
  and changing one of them through \<^verbatim>\<open>target<T>()\<close> changes what its own wrapper computes
  and not what the other computes. The state is one whose allocated blocks all lie below
  the allocation counter, as in every state a program reaches.
\<close>

theorem C9_copy_is_independent:
  "bound_to st other T v \<and> this \<noteq> other \<and> dom (heap st) \<subseteq> {..<allocs st} \<longrightarrow>
     (\<exists>st'. function_copy this other st = Inr st'
        \<and> bound_to st' this T v \<and> bound_to st' other T v
        \<and> operator_call other args st = Inr (v args)
        \<and> operator_call this args st' = Inr (v args)
        \<and> operator_call other args st' = Inr (v args)
        \<and> target T this st' \<noteq> target T other st'
        \<and> allocs st' = (if fits_small T then allocs st else allocs st + 1)
        \<and> operator_call this args (mutate T this v' st') = Inr (v' args)
        \<and> operator_call other args (mutate T this v' st') = Inr (v args)
        \<and> operator_call other args (mutate T other v' st') = Inr (v' args)
        \<and> operator_call this args (mutate T other v' st') = Inr (v args))"
proof
  assume a: "bound_to st other T v \<and> this \<noteq> other \<and> dom (heap st) \<subseteq> {..<allocs st}"
  then have b: "bound_to st other T v" and ne: "this \<noteq> other" and h: "dom (heap st) \<subseteq> {..<allocs st}"
    by auto
  from copy_bound[OF b ne h] obtain st' where s: "function_copy this other st = Inr st'"
    "desc (objs st' this) = table_of T" "desc (objs st' other) = table_of T"
    "cell st' (storage_of other) = cell st (storage_of other)"
    "if fits_small T
         then cell st' (storage_of this) = Object T v \<and> heap st' = heap st \<and> allocs st' = allocs st
         else cell st' (storage_of this) = Pointer (allocs st) \<and>
              heap st' = (heap st)(allocs st \<mapsto> Object T v) \<and> allocs st' = allocs st + 1 \<and>
              cell st (storage_of other) \<noteq> Pointer (allocs st)"
    by blast
  have fr: "heap st (allocs st) = None" using h by auto
  have bt: "bound_to st' this T v" using s(2,5) by (auto simp: bound_to_iff split: if_splits)
  have bo: "bound_to st' other T v"
    using b s(3,4,5) fr by (auto simp: bound_to_iff split: if_splits)
  have d: "target T this st' \<noteq> target T other st'"
    using target_bound[OF bt] target_bound[OF bo] ne s(4,5)
    by (auto simp: ptr_from_storage_def split: if_splits slot.splits)
  have d': "target T other st' \<noteq> target T this st'" using d by simp
  show "\<exists>st'. function_copy this other st = Inr st'
        \<and> bound_to st' this T v \<and> bound_to st' other T v
        \<and> operator_call other args st = Inr (v args)
        \<and> operator_call this args st' = Inr (v args)
        \<and> operator_call other args st' = Inr (v args)
        \<and> target T this st' \<noteq> target T other st'
        \<and> allocs st' = (if fits_small T then allocs st else allocs st + 1)
        \<and> operator_call this args (mutate T this v' st') = Inr (v' args)
        \<and> operator_call other args (mutate T this v' st') = Inr (v args)
        \<and> operator_call other args (mutate T other v' st') = Inr (v' args)
        \<and> operator_call this args (mutate T other v' st') = Inr (v args)"
    using s(1) bt bo d bound_call[OF b] bound_call[OF bt] bound_call[OF bo] s(5)
      bound_call[OF bound_mutate_self[OF bt]] bound_call[OF bound_mutate_self[OF bo]]
      bound_call[OF bound_mutate_other[OF bt bo d]] bound_call[OF bound_mutate_other[OF bo bt d']]
    by (intro exI[of _ st']) (simp split: if_splits)
qed

theorem C9_copy_is_independent_witness:
  "bound_to ex_large (var 0) large_func (\<lambda>x. 6 + x) \<and> var 1 \<noteq> var 0
   \<and> dom (heap ex_large) \<subseteq> {..<allocs ex_large}
   \<and> (\<exists>st'. function_copy (var 1) (var 0) ex_large = Inr st'
        \<and> operator_call (var 1) 5 st' = Inr 11
        \<and> operator_call (var 0) 5 st' = Inr 11
        \<and> allocs st' = 2
        \<and> operator_call (var 1) 5 (mutate large_func (var 1) (\<lambda>x. 7 + x) st') = Inr 12
        \<and> operator_call (var 0) 5 (mutate large_func (var 1) (\<lambda>x. 7 + x) st') = Inr 11)"
proof -
  have b: "bound_to ex_large (var 0) large_func (\<lambda>x. 6 + x)"
    unfolding ex_large_def by (rule bound_from)
  have h: "dom (heap ex_large) \<subseteq> {..<allocs ex_large}" by (simp add: example_defs)
  have f: "\<not> fits_small large_func" "allocs ex_large = 1" by (simp_all add: example_defs)
  show ?thesis
    using b h f
      C9_copy_is_independent[where st = ex_large and other = "var 0" and this = "var 1"
        and T = large_func and v = "\<lambda>x. 6 + x" and v' = "\<lambda>x. 7 + x" and args = 5]
    by auto
qed

text \<open>
  Claim C10. The \<^verbatim>\<open>get\<close> of the empty table returns the null pointer, the address of the
  empty table differs from the address of the table of every type, and
  \<^verbatim>\<open>target<T>()\<close> is null on every wrapper whose \<^verbatim>\<open>operator bool\<close> is false, on a
  default-constructed wrapper, and on the source of a move construction or move
  assignment that returned.
\<close>

theorem C10_target_of_empty_is_null:
  "get get_empty_func_descriptor src st = nullptr
   \<and> empty_table \<noteq> table_of T
   \<and> (\<not> operator_bool w st \<longrightarrow> target T w st = nullptr)
   \<and> target T this (function_default this st) = nullptr
   \<and> (function_move this other st = Inr st' \<longrightarrow> target T other st' = nullptr)
   \<and> (assign_move this (var m) st = Inr st' \<and> this \<noteq> var m \<longrightarrow> target T (var m) st' = nullptr)"
proof (intro conjI impI)
  show "get get_empty_func_descriptor src st = nullptr" by (simp add: get_empty_func_descriptor_def)
  show "empty_table \<noteq> table_of T" by simp
  show "target T w st = nullptr" if "\<not> operator_bool w st"
    using that by (simp add: target_def operator_bool_def)
  show "target T this (function_default this st) = nullptr"
    by (simp add: target_def function_default_def desc_fresh)
  show "target T other st' = nullptr" if "function_move this other st = Inr st'"
  proof -
    from that obtain st2 where "st' = set_desc other empty_table st2"
      by (auto simp: function_move_def Let_def and_then_Inr)
    then show ?thesis by (simp add: target_def desc_set_desc)
  qed
  show "target T (var m) st' = nullptr" if "assign_move this (var m) st = Inr st' \<and> this \<noteq> var m"
    using assign_move_empties[of this "var m" st st'] that by (simp add: target_def)
qed

theorem C10_target_of_empty_is_null_witness:
  "\<not> operator_bool (var 0) (init :: (unit, int) state)
   \<and> target small_func (var 0) (init :: (unit, int) state) = nullptr
   \<and> function_move (var 1) (var 0) ex_small = Inr (projr (function_move (var 1) (var 0) ex_small))
   \<and> target small_func (var 0) (projr (function_move (var 1) (var 0) ex_small)) = nullptr
   \<and> assign_move (var 1) (var 0) ex_small = Inr (projr (assign_move (var 1) (var 0) ex_small))
   \<and> target small_func (var 1) (projr (assign_move (var 1) (var 0) ex_small))
        = in_cell (storage_of (var 1))
   \<and> target small_func (var 0) (projr (assign_move (var 1) (var 0) ex_small)) = nullptr"
proof -
  have b: "\<not> operator_bool (var 0) (init :: (unit, int) state)"
    by (simp add: operator_bool_def init_def)
  have m: "function_move (var 1) (var 0) ex_small = Inr (projr (function_move (var 1) (var 0) ex_small))"
    by (simp add: example_defs)
  have a: "assign_move (var 1) (var 0) ex_small = Inr (projr (assign_move (var 1) (var 0) ex_small))"
    "target small_func (var 1) (projr (assign_move (var 1) (var 0) ex_small))
        = in_cell (storage_of (var 1))"
    by (simp_all add: example_defs)
  show ?thesis
    using b m a
      C10_target_of_empty_is_null[where st = "init :: (unit, int) state" and T = small_func and w = "var 0"]
      C10_target_of_empty_is_null[where st = ex_small and T = small_func and this = "var 1"
        and other = "var 0" and st' = "projr (function_move (var 1) (var 0) ex_small)"]
      C10_target_of_empty_is_null[where st = ex_small and T = small_func and this = "var 1"
        and m = 0 and st' = "projr (assign_move (var 1) (var 0) ex_small)"]
    by simp
qed

end
